theory Spec2Isabelle
  imports Complex_Main "HOL-Library.AList" "HOL-Library.Multiset"
begin

section \<open>Batched inference over a directory of tiles: \<open>hot_fair_utilities/inference/predict.py\<close>\<close>

text \<open>
  The module has two functions. \<open>process_batch\<close> loads the tiles of one batch, runs the
  model on them, binarises the arg-max of the class scores and saves one mask per tile.
  \<open>predict\<close> loads the model, creates the output directory, globs the input tiles, cuts
  the list into batches of \<open>BATCH_SIZE\<close>, submits one \<open>process_batch\<close> task per batch to
  a thread pool, waits for all of them, georeferences the output directory and removes
  the \<open>*.xml\<close> and \<open>*.png\<close> files from it.

  Python exceptions are values of the type \<open>error\<close>; a function that can raise returns
  the error next to the state it leaves behind, since the file system keeps whatever was
  written before the exception.
\<close>

subsection \<open>Constants and exceptions\<close>

definition BATCH_SIZE :: nat where
  "BATCH_SIZE = 8"

definition IMAGE_SIZE :: nat where
  "IMAGE_SIZE = 256"

datatype error =
    OSError              \<comment> \<open>\<open>FileExistsError\<close>, \<open>FileNotFoundError\<close>, \<open>NotADirectoryError\<close>\<close>
  | ValueError           \<comment> \<open>numpy: impossible reshape, arg-max of an empty axis\<close>
  | IndexError           \<comment> \<open>\<open>preds[idx]\<close> out of bounds\<close>
  | OverflowError        \<comment> \<open>\<open>int / int\<close> too large for a float\<close>
  | ImageFormatError     \<comment> \<open>a tile that cannot be decoded\<close>
  | ExternalError string \<comment> \<open>raised inside keras or the georeferencer\<close>

subsection \<open>Cutting the list of paths into batches\<close>

text \<open>
  \<open>n_batches = math.ceil(len(image_paths) / BATCH_SIZE)\<close>. The operator \<open>/\<close> on two
  Python ints is true division: its result is the double nearest to the quotient (ties to
  even), and it raises \<open>OverflowError\<close> when that is beyond the range of a double. The
  divisor is \<open>8\<close>, a power of two, so the quotient is rounded exactly where the dividend is
  rounded to 53 significant bits: \<open>int_to_float n\<close> is that rounded dividend, and the
  ceiling of \<open>int_to_float n / 8\<close> is taken exactly (\<open>math.ceil\<close> returns an int).
\<close>

fun bit_length :: "nat \<Rightarrow> nat" where
  "bit_length n = (if n = 0 then 0 else Suc (bit_length (n div 2)))"

declare bit_length.simps [simp del]

definition int_to_float :: "nat \<Rightarrow> nat" where
  "int_to_float n =
     (if n < 2 ^ 53 then n
      else let e = bit_length n - 53; q = n div 2 ^ e; r = n mod 2 ^ e; h = 2 ^ (e - 1)
           in (if r < h \<or> (r = h \<and> even q) then q else q + 1) * 2 ^ e)"

definition ceil_div_batch :: "nat \<Rightarrow> error + nat" where
  "ceil_div_batch n =
     (if 2 ^ 1027 \<le> int_to_float n then Inl OverflowError
      else Inr ((int_to_float n + (BATCH_SIZE - 1)) div BATCH_SIZE))"

text \<open>
  \<open>xs[a:b]\<close> for \<open>0 \<le> a\<close> and \<open>0 \<le> b\<close>: Python clamps both ends to the length, it never
  raises.
\<close>

definition py_slice :: "nat \<Rightarrow> nat \<Rightarrow> 'a list \<Rightarrow> 'a list" where
  "py_slice a b xs = drop a (take b xs)"

text \<open>
  The batches that the loop \<open>for i in range(n_batches)\<close> of \<open>predict\<close> cuts, in the
  order it submits them: \<open>image_paths[BATCH_SIZE * i : BATCH_SIZE * (i + 1)]\<close>.
\<close>

definition make_batches :: "nat \<Rightarrow> 'a list \<Rightarrow> 'a list list" where
  "make_batches n_batches image_paths =
     map (\<lambda>i. py_slice (BATCH_SIZE * i) (BATCH_SIZE * (i + 1)) image_paths) [0..<n_batches]"

subsection \<open>Path strings\<close>

text \<open>
  The module builds and takes apart paths as strings, with \<open>pathlib\<close> (\<open>Path(path).stem\<close>)
  and, inside \<open>glob\<close>, with \<open>os.path.split\<close> and \<open>os.path.join\<close>. They are modelled for
  POSIX paths. \<open>split_on\<close> is \<open>str.split\<close> for a one-character separator.
\<close>

fun split_on :: "char \<Rightarrow> string \<Rightarrow> string list" where
  "split_on c [] = [[]]"
| "split_on c (x # xs) =
     (if x = c then [] # split_on c xs
      else (case split_on c xs of [] \<Rightarrow> [[x]] | w # ws \<Rightarrow> (x # w) # ws))"

text \<open>
  \<open>str.rfind\<close> for one character: the index of its last occurrence, \<open>None\<close> for Python's
  \<open>-1\<close>.
\<close>

fun rfind :: "char \<Rightarrow> string \<Rightarrow> nat option" where
  "rfind c [] = None"
| "rfind c (x # xs) =
     (case rfind c xs of
        Some i \<Rightarrow> Some (Suc i)
      | None \<Rightarrow> if x = c then Some 0 else None)"

definition rstrip :: "char \<Rightarrow> string \<Rightarrow> string" where
  "rstrip c s = rev (dropWhile (\<lambda>x. x = c) (rev s))"

text \<open>
  \<open>pathlib\<close> drops empty components and \<open>.\<close> components when it parses a path;
  \<open>Path(p).name\<close> is the last component left, or the empty string. \<open>Path(p).stem\<close> is the
  name without its last suffix: with \<open>i = name.rfind('.')\<close>, it is \<open>name[:i]\<close> when
  \<open>0 < i < len(name) - 1\<close> and the whole name otherwise.
\<close>

definition path_parts :: "string \<Rightarrow> string list" where
  "path_parts p = filter (\<lambda>x. x \<noteq> [] \<and> x \<noteq> ''.'') (split_on CHR ''/'' p)"

definition path_name :: "string \<Rightarrow> string" where
  "path_name p = (if path_parts p = [] then [] else last (path_parts p))"

definition path_stem :: "string \<Rightarrow> string" where
  "path_stem p =
     (let name = path_name p
      in case rfind CHR ''.'' name of
           None \<Rightarrow> name
         | Some i \<Rightarrow> if 0 < i \<and> i < length name - 1 then take i name else name)"

definition is_abs :: "string \<Rightarrow> bool" where
  "is_abs p = (case p of [] \<Rightarrow> False | c # _ \<Rightarrow> c = CHR ''/'')"

text \<open>
  \<open>os.path.split\<close>: head and tail around the last slash; trailing slashes are stripped
  from the head unless it consists of slashes only. \<open>os.path.join\<close> of two strings.
\<close>

definition os_path_split :: "string \<Rightarrow> string \<times> string" where
  "os_path_split p =
     (let i = (case rfind CHR ''/'' p of None \<Rightarrow> 0 | Some j \<Rightarrow> j + 1);
          head = take i p;
          tail = drop i p
      in (if head \<noteq> [] \<and> head \<noteq> replicate (length head) CHR ''/''
          then rstrip CHR ''/'' head else head, tail))"

definition os_path_join :: "string \<Rightarrow> string \<Rightarrow> string" where
  "os_path_join a b =
     (if is_abs b then b
      else if a = [] \<or> last a = CHR ''/'' then a @ b
      else a @ ''/'' @ b)"

text \<open>
  \<open>fnmatch\<close> of a file name against a pattern, case-sensitive as on POSIX, for patterns made
  of literal characters, \<open>*\<close> and \<open>?\<close>. The only patterns this module matches names against
  are \<open>*.png\<close> and \<open>*.xml\<close>. \<open>glob\<close> does not let a pattern that does not start with a dot
  match a name that does (a hidden file).
\<close>

fun fnmatch :: "string \<Rightarrow> string \<Rightarrow> bool" where
  "fnmatch [] [] = True"
| "fnmatch (n # ns) [] = False"
| "fnmatch [] (p # ps) = (p = CHR ''*'' \<and> fnmatch [] ps)"
| "fnmatch (n # ns) (p # ps) =
     (if p = CHR ''*'' then fnmatch (n # ns) ps \<or> fnmatch ns (p # ps)
      else (p = CHR ''?'' \<or> p = n) \<and> fnmatch ns ps)"

definition ishidden :: "string \<Rightarrow> bool" where
  "ishidden n = (case n of [] \<Rightarrow> False | c # _ \<Rightarrow> c = CHR ''.'')"

definition glob_match :: "string \<Rightarrow> string \<Rightarrow> bool" where
  "glob_match n pat = ((ishidden pat \<or> \<not> ishidden n) \<and> fnmatch n pat)"

text \<open>
  \<open>glob.has_magic\<close>: whether a string has one of the wildcard characters of \<open>glob\<close>.
\<close>

definition has_magic :: "string \<Rightarrow> bool" where
  "has_magic s = list_ex (\<lambda>c. c = CHR ''*'' \<or> c = CHR ''?'' \<or> c = CHR ''['') s"

subsection \<open>The file system and the trace of a run\<close>

text \<open>
  A file is an image with its samples in row-major order, tagged with a coordinate
  reference system once it is georeferenced, or anything else (\<open>Blob\<close>: an \<open>.xml\<close> sidecar,
  a file that does not decode). A path leads to a directory with its entries in listing
  order, to something that is not a directory, or to nothing. A path is looked up by
  whether it is absolute and by its components, so \<open>out\<close>, \<open>out/\<close> and \<open>./out\<close> are the
  same directory. A regular file is an entry of its directory, or a \<open>RegularFile\<close> at its
  own path. The root and the working directory are taken to exist. The model stops there:
  a directory lists its files only, and \<open>..\<close> and symbolic links are not resolved.
\<close>

datatype content = Image "string option" "int list" | Blob

datatype node = Directory "(string \<times> content) list" | RegularFile

type_synonym key = "bool \<times> string list"

type_synonym fs = "key \<Rightarrow> node option"

definition resolve :: "string \<Rightarrow> key" where
  "resolve p = (is_abs p, path_parts p)"

definition listdir :: "string \<Rightarrow> fs \<Rightarrow> string list" where
  "listdir d fs = (case fs (resolve d) of Some (Directory es) \<Rightarrow> map fst es | _ \<Rightarrow> [])"

definition read_file :: "string \<Rightarrow> fs \<Rightarrow> content option" where
  "read_file p fs =
     (if path_parts p = [] then None
      else case fs (is_abs p, butlast (path_parts p)) of
             Some (Directory es) \<Rightarrow> map_of es (last (path_parts p))
           | _ \<Rightarrow> None)"

definition write_file :: "string \<Rightarrow> content \<Rightarrow> fs \<Rightarrow> fs option" where
  "write_file p c fs =
     (if path_parts p = [] then None
      else case fs (is_abs p, butlast (path_parts p)) of
             Some (Directory es) \<Rightarrow>
               Some (fs((is_abs p, butlast (path_parts p))
                          \<mapsto> Directory (AList.update (last (path_parts p)) c es)))
           | _ \<Rightarrow> None)"

text \<open>
  What a run does is recorded next to the file system, in the order it happens: the calls
  of \<open>predict\<close> and of the tasks, each with its arguments.
\<close>

datatype event =
    EvLoadModel string
  | EvMakedirs string
  | EvGlob string
  | EvSubmit "string list"
  | EvOpenImages "string list"
  | EvInference nat
  | EvSaveMask string "int list list"
  | EvGeoreference string string
  | EvRemoveFiles string

record world =
  files :: fs
  trace :: "event list"

definition log :: "event \<Rightarrow> world \<Rightarrow> world" where
  "log ev w = w\<lparr>trace := trace w @ [ev]\<rparr>"

text \<open>
  \<open>glob.glob(pathname)\<close> for a pattern whose directory part has none of the characters
  \<open>*\<close>, \<open>?\<close> and \<open>[\<close> (\<open>has_magic\<close> is false of it): the names of that directory that match
  the last component, in listing order, each joined to the directory part. A directory
  that cannot be listed gives no match; \<open>glob\<close> never raises. With a wildcard in the
  directory part Python expands that part too, which this definition does not do: there
  it reads the directory part literally. The statements below that depend on which files
  a glob of \<open>predict\<close> finds are made for paths without wildcards (\<open>plain_path\<close>).
\<close>

definition glob :: "string \<Rightarrow> fs \<Rightarrow> string list" where
  "glob pathname fs =
     (let (dirname, basename) = os_path_split pathname
      in map (os_path_join dirname)
           (filter (\<lambda>n. glob_match n basename) (listdir dirname fs)))"

text \<open>
  \<open>os.makedirs(path, exist_ok=True)\<close> goes down the path from the top and makes every
  directory that is missing: the path itself and all its parents. A directory that is
  there is accepted. It raises \<open>NotADirectoryError\<close> or \<open>FileExistsError\<close> when a parent or
  the path itself is a regular file, and \<open>FileNotFoundError\<close> for the empty path.
  \<open>ancestors\<close> are the path and its parents, from the top, without the root or working
  directory.
\<close>

definition ancestors :: "key \<Rightarrow> key list" where
  "ancestors k = (case k of (a, ps) \<Rightarrow> map (\<lambda>n. (a, take n ps)) [1..<Suc (length ps)])"

definition is_file :: "fs \<Rightarrow> key \<Rightarrow> bool" where
  "is_file fs k =
     (case k of (a, ps) \<Rightarrow>
        fs k = Some RegularFile
        \<or> (ps \<noteq> [] \<and> (case fs (a, butlast ps) of
                          Some (Directory es) \<Rightarrow> map_of es (last ps) \<noteq> None
                        | _ \<Rightarrow> False)))"

definition mkdir_missing :: "key \<Rightarrow> fs \<Rightarrow> fs" where
  "mkdir_missing k fs = (if fs k = None then fs(k \<mapsto> Directory []) else fs)"

definition makedirs :: "string \<Rightarrow> world \<Rightarrow> error option \<times> world" where
  "makedirs path w =
     (let w' = log (EvMakedirs path) w;
          ks = ancestors (resolve path)
      in if path = [] then (Some OSError, w')
         else if list_ex (is_file (files w)) ks then (Some OSError, w')
         else (None, w'\<lparr>files := fold mkdir_missing ks (files w)\<rparr>))"

subsection \<open>Arrays\<close>

text \<open>
  An array is the list of its elements in row-major order, nested along the axes the
  code indexes. \<open>images.reshape(-1, IMAGE_SIZE, IMAGE_SIZE, 3)\<close> raises \<open>ValueError\<close>
  unless the number of elements is a multiple of \<open>IMAGE_SIZE * IMAGE_SIZE * 3\<close>, and
  otherwise cuts the elements, in order, into tiles of that many.
\<close>

definition reshape_tiles :: "'a list \<Rightarrow> error + 'a list list" where
  "reshape_tiles images =
     (let k = IMAGE_SIZE * IMAGE_SIZE * 3
      in if length images mod k = 0
         then Inr (map (\<lambda>i. take k (drop (i * k) images)) [0..<length images div k])
         else Inl ValueError)"

text \<open>
  A score is a float: a value of a linear order, or NaN, which compares false with
  everything. \<open>np.argmax\<close> along an axis keeps the index of the first element that is
  not \<open>\<le>\<close> the running maximum and stops at the first NaN; on an axis of length zero it
  raises \<open>ValueError\<close>.
\<close>

datatype 'a fl = NaN | Num 'a

fun fl_le :: "'a::linorder fl \<Rightarrow> 'a fl \<Rightarrow> bool" where
  "fl_le (Num a) (Num b) = (a \<le> b)"
| "fl_le _ _ = False"

fun argmax_loop :: "'a::linorder fl \<Rightarrow> nat \<Rightarrow> nat \<Rightarrow> 'a fl list \<Rightarrow> nat" where
  "argmax_loop mp max_ind i [] = max_ind"
| "argmax_loop mp max_ind i (x # xs) =
     (if \<not> fl_le x mp
      then (if x = NaN then i else argmax_loop x i (Suc i) xs)
      else argmax_loop mp max_ind (Suc i) xs)"

definition np_argmax :: "'a::linorder fl list \<Rightarrow> error + nat" where
  "np_argmax xs =
     (case xs of
        [] \<Rightarrow> Inl ValueError
      | x # xs' \<Rightarrow> Inr (if x = NaN then 0 else argmax_loop x 0 1 xs'))"

text \<open>
  The scores of a batch are nested as tile, pixel (row-major), class.
  \<open>np.argmax(preds, axis=-1)\<close> reduces the class axis, \<open>np.expand_dims(preds, axis=-1)\<close>
  wraps every class index in an axis of length one, and \<open>np.where(preds > 0.5, 1, 0)\<close>
  compares every class index, an integer, with the float \<open>0.5\<close>.
\<close>

definition np_argmax_last :: "'a::linorder fl list list list \<Rightarrow> error + nat list list" where
  "np_argmax_last scores =
     (if \<exists>t \<in> set scores. [] \<in> set t then Inl ValueError
      else Inr (map (map (\<lambda>px. case np_argmax px of Inr c \<Rightarrow> c | Inl _ \<Rightarrow> 0)) scores))"

definition np_expand_dims_last :: "nat list list \<Rightarrow> nat list list list" where
  "np_expand_dims_last preds = map (map (\<lambda>c. [c])) preds"

definition where_gt_half :: "nat \<Rightarrow> int" where
  "where_gt_half c = (if (0.5 :: real) < real c then 1 else 0)"

definition np_where_gt_half :: "nat list list list \<Rightarrow> int list list list" where
  "np_where_gt_half preds = map (map (map where_gt_half)) preds"

subsection \<open>The batch processor\<close>

text \<open>
  Modelled from the spec: \<open>open_images\<close> and \<open>save_mask\<close> of
  \<open>hot_fair_utilities/inference/utils.py\<close>, which is not among the sources. The image
  loader "reads PNG tiles into numeric arrays", all images of the batch in a single
  array, and fails if an image cannot be decoded; the spec notes that the reference
  behaviour does not guard the shape of what it has read. The image writer "writes
  predicted mask arrays back out as images".
\<close>

definition open_images :: "string list \<Rightarrow> world \<Rightarrow> (error + int list) \<times> world" where
  "open_images paths w =
     (let w' = log (EvOpenImages paths) w
      in case those (map (\<lambda>p. case read_file p (files w) of
                                 Some (Image crs samples) \<Rightarrow> Some samples
                               | _ \<Rightarrow> None) paths) of
           None \<Rightarrow> (Inl ImageFormatError, w')
         | Some imgs \<Rightarrow> (Inr (concat imgs), w'))"

definition save_mask :: "int list list \<Rightarrow> string \<Rightarrow> world \<Rightarrow> error option \<times> world" where
  "save_mask mask_array path w =
     (case write_file path (Image None (concat mask_array)) (files w) of
        None \<Rightarrow> (Some OSError, w)
      | Some fs' \<Rightarrow> (None, log (EvSaveMask path mask_array) (w\<lparr>files := fs'\<rparr>)))"

text \<open>
  The model is keras's: \<open>model.predict\<close> takes the tiles of a batch and returns their
  scores, or raises. It is a parameter of everything below.
\<close>

type_synonym 'a model = "int list list \<Rightarrow> error + 'a fl list list list"

text \<open>
  Lines 27 to 32 of \<open>process_batch\<close>: from the loaded array to the masks, one per tile
  the reshape has cut, each mask a list of pixels with one channel.
\<close>

definition predict_masks ::
  "('a::linorder) model \<Rightarrow> int list \<Rightarrow> world \<Rightarrow> (error + int list list list) \<times> world" where
  "predict_masks model images w =
     (case reshape_tiles images of
        Inl e \<Rightarrow> (Inl e, w)
      | Inr tiles \<Rightarrow>
          (let w' = log (EvInference (length tiles)) w
           in case model tiles of
                Inl e \<Rightarrow> (Inl e, w')
              | Inr scores \<Rightarrow>
                  (case np_argmax_last scores of
                     Inl e \<Rightarrow> (Inl e, w')
                   | Inr classes \<Rightarrow>
                       (Inr (np_where_gt_half (np_expand_dims_last classes)), w'))))"

text \<open>
  Lines 34 to 38: the loop over \<open>enumerate(image_batch)\<close>. \<open>preds[idx]\<close> raises
  \<open>IndexError\<close> when there are fewer masks than paths; the masks saved before an exception
  stay on disk.
\<close>

definition mask_path :: "string \<Rightarrow> string \<Rightarrow> string" where
  "mask_path prediction_path path = prediction_path @ ''/'' @ path_stem path @ ''.png''"

fun save_masks ::
  "int list list list \<Rightarrow> string \<Rightarrow> (nat \<times> string) list \<Rightarrow> world \<Rightarrow> error option \<times> world" where
  "save_masks preds prediction_path [] w = (None, w)"
| "save_masks preds prediction_path ((idx, path) # rest) w =
     (if idx < length preds
      then (case save_mask (preds ! idx) (mask_path prediction_path path) w of
              (Some e, w') \<Rightarrow> (Some e, w')
            | (None, w') \<Rightarrow> save_masks preds prediction_path rest w')
      else (Some IndexError, w))"

definition process_batch ::
  "string list \<Rightarrow> ('a::linorder) model \<Rightarrow> string \<Rightarrow> world \<Rightarrow> error option \<times> world" where
  "process_batch image_batch model prediction_path w =
     (case open_images image_batch w of
        (Inl e, w1) \<Rightarrow> (Some e, w1)
      | (Inr images, w1) \<Rightarrow>
          (case predict_masks model images w1 of
             (Inl e, w2) \<Rightarrow> (Some e, w2)
           | (Inr preds, w2) \<Rightarrow>
               save_masks preds prediction_path (List.enumerate 0 image_batch) w2))"

subsection \<open>The thread pool\<close>

text \<open>
  \<open>executor.submit(process_batch, image_batch, model, prediction_path)\<close> returns a future.
  A task is the state of one such call: not started, inside the saving loop with the
  items of \<open>enumerate(image_batch)\<close> still to come, returned, or ended by an exception,
  which the future keeps. The workers interleave; a step of a task is one call that
  touches the file system: loading and predicting, or one iteration of the saving loop.
\<close>

datatype task =
    Pending "string list"
  | Saving "int list list list" "(nat \<times> string) list"
  | Done
  | Failed error

fun finished :: "task \<Rightarrow> bool" where
  "finished Done = True"
| "finished (Failed e) = True"
| "finished _ = False"

fun step_task :: "('a::linorder) model \<Rightarrow> string \<Rightarrow> task \<Rightarrow> world \<Rightarrow> task \<times> world" where
  "step_task model prediction_path (Pending image_batch) w =
     (case open_images image_batch w of
        (Inl e, w1) \<Rightarrow> (Failed e, w1)
      | (Inr images, w1) \<Rightarrow>
          (case predict_masks model images w1 of
             (Inl e, w2) \<Rightarrow> (Failed e, w2)
           | (Inr preds, w2) \<Rightarrow> (Saving preds (List.enumerate 0 image_batch), w2)))"
| "step_task model prediction_path (Saving preds []) w = (Done, w)"
| "step_task model prediction_path (Saving preds ((idx, path) # rest)) w =
     (if idx < length preds
      then (case save_mask (preds ! idx) (mask_path prediction_path path) w of
              (Some e, w') \<Rightarrow> (Failed e, w')
            | (None, w') \<Rightarrow> (Saving preds rest, w'))
      else (Failed IndexError, w))"
| "step_task model prediction_path Done w = (Done, w)"
| "step_task model prediction_path (Failed e) w = (Failed e, w)"

text \<open>
  A step of the worker of task \<open>i\<close>. A step of a task that has finished does nothing.
\<close>

definition step_at ::
  "('a::linorder) model \<Rightarrow> string \<Rightarrow> nat \<Rightarrow> task list \<times> world \<Rightarrow> task list \<times> world" where
  "step_at model prediction_path i st =
     (case st of (ts, w) \<Rightarrow>
        if i < length ts
        then (case step_task model prediction_path (ts ! i) w of (t', w') \<Rightarrow> (ts[i := t'], w'))
        else (ts, w))"

text \<open>
  The pool while the loop of \<open>predict\<close> is submitting: the batches still to submit, the
  tasks submitted so far, and the world. The main thread submits the next batch; the
  workers of the tasks already submitted run meanwhile. A schedule is the order in which
  the threads move: an index below the number of tasks submitted so far is a step of the
  worker of that task, any other index is the main thread submitting its next batch (or
  nothing, when all are submitted).
\<close>

type_synonym pool = "string list list \<times> task list \<times> world"

definition submit_next :: "pool \<Rightarrow> pool" where
  "submit_next st =
     (case st of (pending, ts, w) \<Rightarrow>
        (case pending of
           [] \<Rightarrow> ([], ts, w)
         | image_batch # rest \<Rightarrow> (rest, ts @ [Pending image_batch], log (EvSubmit image_batch) w)))"

definition step_pool :: "('a::linorder) model \<Rightarrow> string \<Rightarrow> nat \<Rightarrow> pool \<Rightarrow> pool" where
  "step_pool model prediction_path i st =
     (case st of (pending, ts, w) \<Rightarrow>
        if i < length ts
        then (case step_at model prediction_path i (ts, w) of (ts', w') \<Rightarrow> (pending, ts', w'))
        else submit_next (pending, ts, w))"

fun run_schedule :: "('a::linorder) model \<Rightarrow> string \<Rightarrow> nat list \<Rightarrow> pool \<Rightarrow> pool" where
  "run_schedule model prediction_path [] st = st"
| "run_schedule model prediction_path (i # sched) st =
     run_schedule model prediction_path sched (step_pool model prediction_path i st)"

text \<open>
  Running one task to its end, from wherever it is.
\<close>

fun finish_task :: "('a::linorder) model \<Rightarrow> string \<Rightarrow> task \<Rightarrow> world \<Rightarrow> task \<times> world" where
  "finish_task model prediction_path (Pending image_batch) w =
     (case process_batch image_batch model prediction_path w of
        (Some e, w') \<Rightarrow> (Failed e, w')
      | (None, w') \<Rightarrow> (Done, w'))"
| "finish_task model prediction_path (Saving preds rest) w =
     (case save_masks preds prediction_path rest w of
        (Some e, w') \<Rightarrow> (Failed e, w')
      | (None, w') \<Rightarrow> (Done, w'))"
| "finish_task model prediction_path Done w = (Done, w)"
| "finish_task model prediction_path (Failed e) w = (Failed e, w)"

fun finish_all ::
  "('a::linorder) model \<Rightarrow> string \<Rightarrow> task list \<Rightarrow> world \<Rightarrow> task list \<times> world" where
  "finish_all model prediction_path [] w = ([], w)"
| "finish_all model prediction_path (t # ts) w =
     (case finish_task model prediction_path t w of (t', w') \<Rightarrow>
        (case finish_all model prediction_path ts w' of (ts', w'') \<Rightarrow> (t' # ts', w'')))"

text \<open>
  The rest of the loop: the main thread submits the batches it has still to submit.
\<close>

definition submit_all :: "pool \<Rightarrow> task list \<times> world" where
  "submit_all st =
     (case st of (pending, ts, w) \<Rightarrow>
        (ts @ map Pending pending, fold (\<lambda>b. log (EvSubmit b)) pending w))"

text \<open>
  \<open>concurrent.futures.wait(futures)\<close>, and the end of the \<open>with\<close> block, return when every
  future is done: whatever is still unfinished runs to its end. \<open>wait\<close> does not look
  into the futures.
\<close>

definition wait ::
  "('a::linorder) model \<Rightarrow> string \<Rightarrow> task list \<times> world \<Rightarrow> task list \<times> world" where
  "wait model prediction_path st =
     (case st of (ts, w) \<Rightarrow> finish_all model prediction_path ts w)"

subsection \<open>Georeferencing and cleanup\<close>

text \<open>
  The georeferencer is, in the spec's words, "an opaque external operation": whatever it
  does to the file system, or an exception. \<open>predict\<close> takes it as a parameter.
\<close>

type_synonym georeferencer = "string \<Rightarrow> string \<Rightarrow> fs \<Rightarrow> error option \<times> fs"

text \<open>
  Modelled from the spec: \<open>georeference\<close> of \<open>hot_fair_utilities/georeferencing.py\<close>, which
  is not among the sources. It "reads every mask image produced" and "rewrites it in
  place (or to the same directory) as a georeferenced raster tagged with a fixed
  coordinate reference system"; the output is "named \<open>{input_stem}.png\<close>", with the "CRS
  fixed at EPSG:3857".
\<close>

fun georeference_entries :: "string \<Rightarrow> (string \<times> content) list \<Rightarrow> fs \<Rightarrow> error option \<times> fs" where
  "georeference_entries output_path [] fs = (None, fs)"
| "georeference_entries output_path ((n, Blob) # es) fs = georeference_entries output_path es fs"
| "georeference_entries output_path ((n, Image crs samples) # es) fs =
     (if glob_match n ''*.png''
      then (case write_file (output_path @ ''/'' @ path_stem n @ ''.png'')
                   (Image (Some ''EPSG:3857'') samples) fs of
              None \<Rightarrow> (Some OSError, fs)
            | Some fs' \<Rightarrow> georeference_entries output_path es fs')
      else georeference_entries output_path es fs)"

definition georeference :: georeferencer where
  "georeference input_path output_path fs =
     (case fs (resolve input_path) of
        Some (Directory es) \<Rightarrow> georeference_entries output_path es fs
      | _ \<Rightarrow> (None, fs))"

text \<open>
  Modelled from the spec: \<open>remove_files\<close> of \<open>hot_fair_utilities/utils.py\<close>, which is not
  among the sources. The cleanup "deletes all auxiliary/intermediate files matching
  \<open>*.xml\<close> and the original (non-georeferenced) \<open>*.png\<close> masks from the prediction
  directory", and "deleting an already-absent file is not an error". The files of a
  pattern are those that \<open>glob\<close> finds for it.
\<close>

definition remove_files :: "string \<Rightarrow> world \<Rightarrow> world" where
  "remove_files pattern w =
     (let (dirname, basename) = os_path_split pattern;
          w' = log (EvRemoveFiles pattern) w
      in case files w (resolve dirname) of
           Some (Directory es) \<Rightarrow>
             w'\<lparr>files := (files w)(resolve dirname \<mapsto>
                   Directory (filter (\<lambda>(n, c). \<not> glob_match n basename) es))\<rparr>
         | _ \<Rightarrow> w')"

text \<open>
  Lines 90 and 91 of \<open>predict\<close>, the cleanup step.
\<close>

definition cleanup :: "string \<Rightarrow> world \<Rightarrow> world" where
  "cleanup prediction_path w =
     remove_files (prediction_path @ ''/*.png'')
       (remove_files (prediction_path @ ''/*.xml'') w)"

subsection \<open>The entry point\<close>

text \<open>
  \<open>predict(checkpoint_path, input_path, prediction_path)\<close>. \<open>load_model\<close> is keras's
  \<open>keras.models.load_model\<close>; \<open>sched\<close> is the order in which the threads happen to move
  while the \<open>with\<close> block runs: as far as the schedule goes the main thread and the
  workers interleave by it, then the main thread ends its loop and waits. Every
  interleaving of the submissions and of the steps of the tasks is the run of some
  schedule. The timing messages printed between the stages are left out.
\<close>

definition dispatch ::
  "('a::linorder) model \<Rightarrow> string \<Rightarrow> nat list \<Rightarrow> string list list \<Rightarrow> world
     \<Rightarrow> task list \<times> world" where
  "dispatch model prediction_path sched batches w =
     wait model prediction_path
       (submit_all (run_schedule model prediction_path sched (batches, [], w)))"

definition georeference_and_cleanup ::
  "georeferencer \<Rightarrow> string \<Rightarrow> world \<Rightarrow> error option \<times> world" where
  "georeference_and_cleanup georef prediction_path w =
     (let w' = log (EvGeoreference prediction_path prediction_path) w
      in case georef prediction_path prediction_path (files w') of
           (Some e, fs') \<Rightarrow> (Some e, w'\<lparr>files := fs'\<rparr>)
         | (None, fs') \<Rightarrow> (None, cleanup prediction_path (w'\<lparr>files := fs'\<rparr>)))"

definition predict ::
  "(string \<Rightarrow> error + ('a::linorder) model) \<Rightarrow> georeferencer \<Rightarrow> nat list
     \<Rightarrow> string \<Rightarrow> string \<Rightarrow> string \<Rightarrow> world \<Rightarrow> error option \<times> world" where
  "predict load_model georef sched checkpoint_path input_path prediction_path w0 =
     (let w1 = log (EvLoadModel checkpoint_path) w0
      in case load_model checkpoint_path of
           Inl e \<Rightarrow> (Some e, w1)
         | Inr model \<Rightarrow>
             (case makedirs prediction_path w1 of
                (Some e, w2) \<Rightarrow> (Some e, w2)
              | (None, w2) \<Rightarrow>
                  (let image_paths = glob (input_path @ ''/*.png'') (files w2);
                       w3 = log (EvGlob (input_path @ ''/*.png'')) w2
                   in case ceil_div_batch (length image_paths) of
                        Inl e \<Rightarrow> (Some e, w3)
                      | Inr n_batches \<Rightarrow>
                          (case dispatch model prediction_path sched
                                  (make_batches n_batches image_paths) w3 of
                             (futures, w4) \<Rightarrow>
                               georeference_and_cleanup georef prediction_path w4))))"

subsection \<open>Notions used in the statements\<close>

text \<open>
  The directory part that \<open>os.path.split\<close> gives for a pattern \<open>d/*.ext\<close>: \<open>d\<close> without
  its trailing slashes, or a string of slashes.
\<close>

definition glob_dirname :: "string \<Rightarrow> string" where
  "glob_dirname d =
     (if d @ ''/'' \<noteq> replicate (Suc (length d)) CHR ''/''
      then rstrip CHR ''/'' (d @ ''/'') else d @ ''/'')"

text \<open>
  A small world for the examples: an input directory \<open>in\<close> with one tile and a file
  that is no tile, and an output directory \<open>out\<close> as a previous run and a GeoTIFF-writing
  georeferencer could have left it.
\<close>

definition example_tile :: "int list" where
  "example_tile = replicate 196608 0"

definition example_files :: fs where
  "example_files =
     Map.empty
       ((False, [''in'']) \<mapsto>
          Directory [(''a.png'', Image None example_tile), (''notes.txt'', Blob)],
        (False, [''out'']) \<mapsto>
          Directory [(''a.png'', Image None [1, 0]), (''a.png.aux.xml'', Blob),
                     (''a.tif'', Image (Some ''EPSG:3857'') [1, 0])])"

definition example_world :: world where
  "example_world = \<lparr>files = example_files, trace = []\<rparr>"

text \<open>
  The events that a task appends to the trace, and a world reached from another by such
  events only.
\<close>

fun is_batch_event :: "event \<Rightarrow> bool" where
  "is_batch_event (EvOpenImages ps) = True"
| "is_batch_event (EvInference n) = True"
| "is_batch_event (EvSaveMask p m) = True"
| "is_batch_event _ = False"

definition batch_steps :: "world \<Rightarrow> world \<Rightarrow> bool" where
  "batch_steps w w' = (\<exists>evs. trace w' = trace w @ evs \<and> list_all is_batch_event evs)"

text \<open>
  The events of the \<open>with\<close> block: those of the tasks and the submissions.
\<close>

fun is_pool_event :: "event \<Rightarrow> bool" where
  "is_pool_event (EvSubmit image_batch) = True"
| "is_pool_event e = is_batch_event e"

definition pool_steps :: "world \<Rightarrow> world \<Rightarrow> bool" where
  "pool_steps w w' = (\<exists>evs. trace w' = trace w @ evs \<and> list_all is_pool_event evs)"


definition example_model :: "int model" where
  "example_model tiles = Inr (map (\<lambda>t. [[Num 1, Num 2], [Num 3, Num 1]]) tiles)"

definition example_load :: "string \<Rightarrow> error + int model" where
  "example_load checkpoint_path = Inr example_model"

definition fresh_world :: world where
  "fresh_world =
     \<lparr>files = Map.empty((False, [''in'']) \<mapsto>
                 Directory [(''a.png'', Image None example_tile), (''notes.txt'', Blob)]),
      trace = []\<rparr>"

text \<open>
  The events of a run before its georeferencing: everything but the call of the
  georeferencer and the removals.
\<close>

fun before_georeference :: "event \<Rightarrow> bool" where
  "before_georeference (EvGeoreference i out) = False"
| "before_georeference (EvRemoveFiles p) = False"
| "before_georeference _ = True"

text \<open>
  The example run of \<open>predict\<close> on \<open>fresh_world\<close>: the world after \<open>os.makedirs\<close>, and
  the world when all futures are done.
\<close>

definition example_w2 :: world where
  "example_w2 =
     \<lparr>files = (files fresh_world)((False, [''out'']) \<mapsto> Directory []),
      trace = [EvLoadModel ''ckpt'', EvMakedirs ''out'']\<rparr>"

definition example_w4 :: world where
  "example_w4 =
     \<lparr>files = (files fresh_world)((False, [''out'']) \<mapsto>
                 Directory [(''a.png'', Image None [1, 0])]),
      trace = [EvLoadModel ''ckpt'', EvMakedirs ''out'', EvGlob ''in/*.png'',
               EvSubmit [''in/a.png''], EvOpenImages [''in/a.png''], EvInference 1,
               EvSaveMask ''out/a.png'' [[1], [0]]]\<rparr>"




definition broken_world :: world where
  "broken_world =
     \<lparr>files = Map.empty((False, [''in'']) \<mapsto> Directory [(''a.png'', Blob)]),
      trace = []\<rparr>"


text \<open>
  The run on \<open>broken_world\<close>: the world after \<open>os.makedirs\<close>, and the world when the
  one future is done.
\<close>

definition broken_w2 :: world where
  "broken_w2 =
     \<lparr>files = (files broken_world)((False, [''out'']) \<mapsto> Directory []),
      trace = [EvLoadModel ''ckpt'', EvMakedirs ''out'']\<rparr>"

definition broken_w4 :: world where
  "broken_w4 =
     \<lparr>files = (files broken_world)((False, [''out'']) \<mapsto> Directory []),
      trace = [EvLoadModel ''ckpt'', EvMakedirs ''out'', EvGlob ''in/*.png'',
               EvSubmit [''in/a.png''], EvOpenImages [''in/a.png'']]\<rparr>"


text \<open>
  The masks a trace records as saved, with their paths; the events that a run has added
  to the trace of the world it started in; and the mask of a tile as the code computes
  it from the scores of the tile: per pixel, the arg-max of the class scores compared
  with \<open>0.5\<close>, wrapped in the channel axis.
\<close>

fun saved :: "event list \<Rightarrow> (string \<times> int list list) list" where
  "saved [] = []"
| "saved (EvSaveMask p m # evs) = (p, m) # saved evs"
| "saved (e # evs) = saved evs"

definition new_events :: "world \<Rightarrow> world \<Rightarrow> event list" where
  "new_events w w' = drop (length (trace w)) (trace w')"

definition binarise :: "('a::linorder) fl list list \<Rightarrow> int list list" where
  "binarise tile_scores =
     map (\<lambda>px. [where_gt_half (case np_argmax px of Inr c \<Rightarrow> c | Inl e \<Rightarrow> 0)]) tile_scores"




definition saved_paths :: "world \<Rightarrow> string multiset" where
  "saved_paths w = mset (map fst (saved (trace w)))"


text \<open>
  A world reached from another by appending events, such that every mask the new events
  record as saved can be read back, and every file that could be read before still can.
\<close>

definition kept :: "world \<Rightarrow> world \<Rightarrow> bool" where
  "kept w w' =
     ((\<exists>evs. trace w' = trace w @ evs
          \<and> list_all (\<lambda>pm. read_file (fst pm) (files w') \<noteq> None) (saved evs))
      \<and> (\<forall>q. read_file q (files w) \<noteq> None \<longrightarrow> read_file q (files w') \<noteq> None))"






text \<open>
  The number of elements of one tile after the reshape. A world whose input directory
  holds images of other sizes: two of half a tile and two of two tiles each. A model whose
  scores for a tile depend on the first sample of the tile, so that the masks tell which
  data they were computed from.
\<close>

definition TILE_LEN :: nat where
  "TILE_LEN = IMAGE_SIZE * IMAGE_SIZE * 3"

definition odd_world :: world where
  "odd_world =
     \<lparr>files = Map.empty
         ((False, [''in'']) \<mapsto>
            Directory [(''h1.png'', Image None (replicate 98304 7)),
                       (''h2.png'', Image None (replicate 98304 9)),
                       (''w1.png'', Image None (replicate 393216 7)),
                       (''w2.png'', Image None (replicate 393216 9))],
          (False, [''out'']) \<mapsto> Directory []),
      trace = []\<rparr>"

definition first_sample_model :: "int model" where
  "first_sample_model tiles = Inr (map (\<lambda>t. [[Num (hd t), Num 8]]) tiles)"


text \<open>
  The paths the statements about the file system are made for: paths that mean to the
  file system above what they mean to Python, with no wildcard of \<open>glob\<close> and no \<open>..\<close>
  component in them.
\<close>

definition plain_path :: "string \<Rightarrow> bool" where
  "plain_path p = (\<not> has_magic p \<and> \<not> list_ex (\<lambda>x. x = ''..'') (path_parts p))"

text \<open>
  Whether a path leads to a directory. A world in which every directory of another
  world is still a directory.
\<close>

definition is_dir :: "fs \<Rightarrow> key \<Rightarrow> bool" where
  "is_dir fs k = (case fs k of Some (Directory es) \<Rightarrow> True | _ \<Rightarrow> False)"

definition dirs_kept :: "world \<Rightarrow> world \<Rightarrow> bool" where
  "dirs_kept w w' = (\<forall>k. is_dir (files w) k \<longrightarrow> is_dir (files w') k)"

text \<open>
  A file system after every file of a directory whose name matches \<open>*.xml\<close> or \<open>*.png\<close>
  has been deleted from it; nothing else changes, and nothing at all when the path does
  not lead to a directory.
\<close>

definition swept :: "string \<Rightarrow> fs \<Rightarrow> fs" where
  "swept d fs =
     (case fs (resolve d) of
        Some (Directory es) \<Rightarrow>
          fs(resolve d \<mapsto>
               Directory (filter (\<lambda>(n, c). \<not> glob_match n ''*.xml'' \<and> \<not> glob_match n ''*.png'') es))
      | _ \<Rightarrow> fs)"

text \<open>
  A checkpoint that does not load; a world in which \<open>out\<close> is a regular file; and the run
  of \<open>predict\<close> on \<open>fresh_world\<close> with the output directory \<open>out/masks\<close>, of which not even
  the parent is there: the world after \<open>os.makedirs\<close>, and the world when the one future
  is done.
\<close>

definition failing_load :: "string \<Rightarrow> error + int model" where
  "failing_load checkpoint_path = Inl (ExternalError ''No file or directory found'')"

definition blocked_world :: world where
  "blocked_world =
     \<lparr>files = (files fresh_world)((False, [''out'']) \<mapsto> RegularFile), trace = []\<rparr>"

definition nested_w2 :: world where
  "nested_w2 =
     \<lparr>files = (files fresh_world)
         ((False, [''out'']) \<mapsto> Directory [],
          (False, [''out'', ''masks'']) \<mapsto> Directory []),
      trace = [EvLoadModel ''ckpt'', EvMakedirs ''out/masks'']\<rparr>"

definition nested_w4 :: world where
  "nested_w4 =
     \<lparr>files = (files fresh_world)
         ((False, [''out'']) \<mapsto> Directory [],
          (False, [''out'', ''masks'']) \<mapsto> Directory [(''a.png'', Image None [1, 0])]),
      trace = [EvLoadModel ''ckpt'', EvMakedirs ''out/masks'', EvGlob ''in/*.png'',
               EvSubmit [''in/a.png''], EvOpenImages [''in/a.png''], EvInference 1,
               EvSaveMask ''out/masks/a.png'' [[1], [0]]]\<rparr>"


section \<open>Properties\<close>

subsection \<open>Batch partitioning\<close>

lemma concat_make_batches_take:
  "concat (make_batches n xs) = take (BATCH_SIZE * n) xs"
proof (induction n)
  case 0
  show ?case by (simp add: make_batches_def)
next
  case (Suc n)
  have "take (BATCH_SIZE * n) xs @ drop (BATCH_SIZE * n) (take (BATCH_SIZE * Suc n) xs)
        = take (BATCH_SIZE * Suc n) xs"
    using append_take_drop_id [of "BATCH_SIZE * n" "take (BATCH_SIZE * Suc n) xs"]
    by (simp add: min_def)
  with Suc show ?case
    by (simp add: make_batches_def py_slice_def)
qed

lemma ceil_div_batch_small:
  assumes "n < 2 ^ 53"
  shows "ceil_div_batch n = Inr ((n + 7) div 8)"
proof -
  have "int_to_float n = n" using assms by (simp add: int_to_float_def)
  moreover have "\<not> (2::nat) ^ 1027 \<le> n"
  proof -
    have "(2::nat) ^ 53 \<le> 2 ^ 1027" by (rule power_increasing) simp_all
    with assms show ?thesis by linarith
  qed
  ultimately show ?thesis by (simp add: ceil_div_batch_def BATCH_SIZE_def)
qed

lemma ceiling_eighth: "int ((n + 7) div 8) = \<lceil>real n / 8\<rceil>"
proof -
  have "\<lceil>real n / 8\<rceil> = \<lceil>real_of_int (int n) / real_of_int 8\<rceil>" by simp
  also have "\<dots> = - ((- int n) div 8)" by (simp only: ceiling_divide_eq_div)
  also have "\<dots> = int ((n + 7) div 8)" by linarith
  finally show ?thesis by simp
qed

lemma py_slice_nth:
  "py_slice a b xs = map (\<lambda>j. xs ! j) [a..<min b (length xs)]"
  by (auto simp: py_slice_def list_eq_iff_nth_eq min_def)

lemma make_batches_nth:
  "i < n \<Longrightarrow> make_batches n xs ! i = map (\<lambda>j. xs ! j) [8 * i..<min (8 * i + 8) (length xs)]"
  by (simp add: make_batches_def py_slice_nth BATCH_SIZE_def add.commute)

text \<open>
  Rounding is not idle: at \<open>2 ^ 53 + 1\<close> paths the quotient is rounded down and the loop
  would cut one batch too few. No list of that length fits a machine, which is why the
  results below are stated for fewer than \<open>2 ^ 53\<close> paths.
\<close>

lemma bit_length_pow2_succ: "bit_length 9007199254740993 = 54"
  by (simp add: bit_length.simps)

lemma int_to_float_rounds: "int_to_float (2 ^ 53 + 1) = 2 ^ 53"
proof -
  have "int_to_float 9007199254740993 = 9007199254740992"
    by (simp add: int_to_float_def bit_length_pow2_succ Let_def)
  then show ?thesis by simp
qed

text \<open>
  Claim C4. For a list of \<open>N\<close> discovered paths (\<open>N < 2 ^ 53\<close>) the computation of
  \<open>n_batches\<close> succeeds with \<open>ceil(N / 8)\<close>; the \<open>i\<close>-th batch is the sublist of the paths at
  the indices from \<open>8 i\<close> up to, and not including, \<open>8 i + 8\<close> (cut at \<open>N\<close> for the last
  batch); and the batches concatenated in order give back the list.
\<close>

theorem batch_partitioning:
  assumes "length image_paths < 2 ^ 53"
  shows "\<exists>n. ceil_div_batch (length image_paths) = Inr n
            \<and> int n = \<lceil>real (length image_paths) / 8\<rceil>
            \<and> length (make_batches n image_paths) = n
            \<and> (\<forall>i<n. make_batches n image_paths ! i
                       = map (\<lambda>j. image_paths ! j)
                           [8 * i..<min (8 * i + 8) (length image_paths)])
            \<and> concat (make_batches n image_paths) = image_paths"
proof -
  let ?N = "length image_paths"
  let ?n = "(?N + 7) div 8"
  have "ceil_div_batch ?N = Inr ?n"
    using assms by (rule ceil_div_batch_small)
  moreover have "int ?n = \<lceil>real ?N / 8\<rceil>"
    by (rule ceiling_eighth)
  moreover have "length (make_batches ?n image_paths) = ?n"
    by (simp add: make_batches_def)
  moreover have "\<forall>i<?n. make_batches ?n image_paths ! i
                   = map (\<lambda>j. image_paths ! j) [8 * i..<min (8 * i + 8) ?N]"
    by (simp add: make_batches_nth)
  moreover have "concat (make_batches ?n image_paths) = image_paths"
  proof -
    have "?N \<le> BATCH_SIZE * ?n" by (simp add: BATCH_SIZE_def)
    then show ?thesis by (simp add: concat_make_batches_take)
  qed
  ultimately show ?thesis by blast
qed

theorem batch_partitioning_witness:
  "length [1, 2, 3, 4, 5, 6, 7, 8, 9, 10 :: nat] < 2 ^ 53
   \<and> ceil_div_batch 10 = Inr 2
   \<and> make_batches 2 [1, 2, 3, 4, 5, 6, 7, 8, 9, 10 :: nat] = [[1, 2, 3, 4, 5, 6, 7, 8], [9, 10]]
   \<and> concat (make_batches 2 [1, 2, 3, 4, 5, 6, 7, 8, 9, 10 :: nat])
       = [1, 2, 3, 4, 5, 6, 7, 8, 9, 10]"
proof -
  have small: "length [1, 2, 3, 4, 5, 6, 7, 8, 9, 10 :: nat] < 2 ^ 53" by simp
  from batch_partitioning [OF small]
  obtain n where n: "ceil_div_batch (length [1, 2, 3, 4, 5, 6, 7, 8, 9, 10 :: nat]) = Inr n"
    and c: "concat (make_batches n [1, 2, 3, 4, 5, 6, 7, 8, 9, 10 :: nat])
              = [1, 2, 3, 4, 5, 6, 7, 8, 9, 10]"
    by blast
  have len: "length [1, 2, 3, 4, 5, 6, 7, 8, 9, 10 :: nat] = 10" by simp
  have two: "ceil_div_batch 10 = Inr 2"
    by (simp add: ceil_div_batch_def int_to_float_def BATCH_SIZE_def)
  from n have "ceil_div_batch 10 = Inr n" by (simp only: len)
  with two have n2: "n = 2" by simp
  have "make_batches 2 [1, 2, 3, 4, 5, 6, 7, 8, 9, 10 :: nat]
          = [[1, 2, 3, 4, 5, 6, 7, 8], [9, 10]]"
    by (simp add: make_batches_def py_slice_def BATCH_SIZE_def numeral_2_eq_2)
  with small two c n2 show ?thesis by simp
qed

subsection \<open>Strings and patterns\<close>

lemma rfind_None_iff: "rfind c xs = None \<longleftrightarrow> c \<notin> set xs"
  by (induction xs) (auto split: option.splits)

lemma rfind_append:
  "rfind c (xs @ ys) =
     (case rfind c ys of Some i \<Rightarrow> Some (length xs + i) | None \<Rightarrow> rfind c xs)"
  by (induction xs) (auto split: option.splits)

lemma rfind_last_sep: "c \<notin> set ys \<Longrightarrow> rfind c (xs @ c # ys) = Some (length xs)"
proof -
  assume "c \<notin> set ys"
  then have "rfind c ys = None" by (simp add: rfind_None_iff)
  then have "rfind c (c # ys) = Some 0" by simp
  then show ?thesis by (simp add: rfind_append)
qed

lemma os_path_split_pattern:
  assumes "CHR ''/'' \<notin> set b"
  shows "os_path_split (d @ ''/'' @ b) = (glob_dirname d, b)"
proof -
  have "rfind CHR ''/'' (d @ CHR ''/'' # b) = Some (length d)"
    using assms by (rule rfind_last_sep)
  then show ?thesis
    by (simp add: os_path_split_def glob_dirname_def Let_def)
qed

lemma split_xml: "os_path_split (d @ ''/*.xml'') = (glob_dirname d, ''*.xml'')"
  using os_path_split_pattern [of "''*.xml''" d] by simp

lemma split_png: "os_path_split (d @ ''/*.png'') = (glob_dirname d, ''*.png'')"
  using os_path_split_pattern [of "''*.png''" d] by simp

subsection \<open>Cleanup\<close>

lemma files_log [simp]: "files (log ev w) = files w"
  by (simp add: log_def)

lemma trace_log [simp]: "trace (log ev w) = trace w @ [ev]"
  by (simp add: log_def)

lemma files_remove_files:
  "files (remove_files pattern w) =
     (case files w (resolve (fst (os_path_split pattern))) of
        Some (Directory es) \<Rightarrow>
          (files w)(resolve (fst (os_path_split pattern)) \<mapsto>
             Directory (filter (\<lambda>(n, c). \<not> glob_match n (snd (os_path_split pattern))) es))
      | _ \<Rightarrow> files w)"
  by (simp add: remove_files_def Let_def split: prod.splits option.splits node.splits)

lemma trace_remove_files [simp]:
  "trace (remove_files pattern w) = trace w @ [EvRemoveFiles pattern]"
  by (simp add: remove_files_def Let_def split: prod.splits option.splits node.splits)

lemma remove_files_twice:
  "files (remove_files pattern (remove_files pattern w)) = files (remove_files pattern w)"
  by (simp add: files_remove_files split: option.splits node.splits)

lemma glob_after_remove_files: "glob pattern (files (remove_files pattern w)) = []"
  by (auto simp: glob_def files_remove_files listdir_def filter_empty_conv
           split: prod.splits option.splits node.splits)

lemma files_cleanup:
  "files (cleanup d w) =
     (case files w (resolve (glob_dirname d)) of
        Some (Directory es) \<Rightarrow>
          (files w)(resolve (glob_dirname d) \<mapsto>
             Directory (filter (\<lambda>(n, c). \<not> glob_match n ''*.xml'' \<and> \<not> glob_match n ''*.png'') es))
      | _ \<Rightarrow> files w)"
  by (auto simp: cleanup_def files_remove_files split_xml split_png conj_commute
      split: option.splits node.splits intro!: arg_cong [where f = Directory] filter_cong)

lemma trace_cleanup [simp]:
  "trace (cleanup d w) = trace w @ [EvRemoveFiles (d @ ''/*.xml''), EvRemoveFiles (d @ ''/*.png'')]"
  by (simp add: cleanup_def)

lemma cleanup_twice: "files (cleanup d (cleanup d w)) = files (cleanup d w)"
  by (simp add: files_cleanup split: option.splits node.splits)

lemma glob_after_cleanup:
  "glob (d @ ''/*.xml'') (files (cleanup d w)) = []
   \<and> glob (d @ ''/*.png'') (files (cleanup d w)) = []"
  by (auto simp: glob_def files_cleanup split_xml split_png listdir_def filter_empty_conv
           split: option.splits node.splits)

lemma resolve_out: "resolve (glob_dirname ''out'') = (False, [''out''])"
  by (simp add: glob_dirname_def rstrip_def resolve_def is_abs_def path_parts_def)

lemma resolve_in: "resolve (glob_dirname ''in'') = (False, [''in''])"
  by (simp add: glob_dirname_def rstrip_def resolve_def is_abs_def path_parts_def)

text \<open>
  Claim C7. The cleanup step cannot raise: it returns a world whatever the directory
  holds. Run a second time it finds none of its files left (both globs are empty after
  the first run) and leaves the file system as the first run left it. The same holds for
  a single \<open>remove_files\<close> with any pattern.
\<close>

theorem cleanup_idempotent:
  "files (cleanup prediction_path (cleanup prediction_path w)) = files (cleanup prediction_path w)
   \<and> glob (prediction_path @ ''/*.xml'') (files (cleanup prediction_path w)) = []
   \<and> glob (prediction_path @ ''/*.png'') (files (cleanup prediction_path w)) = []
   \<and> files (remove_files pattern (remove_files pattern w)) = files (remove_files pattern w)
   \<and> glob pattern (files (remove_files pattern w)) = []"
  by (simp add: cleanup_twice glob_after_cleanup remove_files_twice glob_after_remove_files)

theorem cleanup_idempotent_witness:
  "listdir ''out'' (files (cleanup ''out'' example_world)) = [''a.tif'']
   \<and> listdir ''out'' (files (cleanup ''out'' (cleanup ''out'' example_world))) = [''a.tif'']"
proof -
  have "files (cleanup ''out'' example_world) (False, [''out''])
          = Some (Directory [(''a.tif'', Image (Some ''EPSG:3857'') [1, 0])])"
    by (simp add: files_cleanup resolve_out example_world_def example_files_def
        glob_match_def ishidden_def)
  then have once: "listdir ''out'' (files (cleanup ''out'' example_world)) = [''a.tif'']"
    by (simp add: listdir_def resolve_def is_abs_def path_parts_def)
  from cleanup_idempotent [of "''out''" example_world]
  have "files (cleanup ''out'' (cleanup ''out'' example_world))
          = files (cleanup ''out'' example_world)"
    by simp
  with once show ?thesis by simp
qed

subsection \<open>What the tasks append to the trace; every future ends\<close>

lemma batch_steps_refl [simp]: "batch_steps w w"
  by (simp add: batch_steps_def)

lemma batch_steps_trans: "batch_steps w w' \<Longrightarrow> batch_steps w' w'' \<Longrightarrow> batch_steps w w''"
  by (auto simp: batch_steps_def)

lemma batch_steps_open_images: "open_images ps w = (r, w') \<Longrightarrow> batch_steps w w'"
  by (auto simp: open_images_def Let_def batch_steps_def split: option.splits)

lemma batch_steps_predict_masks: "predict_masks m images w = (r, w') \<Longrightarrow> batch_steps w w'"
  by (auto simp: predict_masks_def Let_def batch_steps_def split: sum.splits)

lemma batch_steps_save_mask: "save_mask m p w = (r, w') \<Longrightarrow> batch_steps w w'"
  by (auto simp: save_mask_def batch_steps_def split: option.splits)

lemma batch_steps_save_masks: "save_masks preds pp items w = (r, w') \<Longrightarrow> batch_steps w w'"
proof (induction items arbitrary: w)
  case Nil
  then show ?case by simp
next
  case (Cons it items)
  obtain idx path where it: "it = (idx, path)" by (cases it)
  show ?case
  proof (cases "idx < length preds")
    case False
    with Cons.prems it show ?thesis by simp
  next
    case True
    obtain r1 w1 where s: "save_mask (preds ! idx) (mask_path pp path) w = (r1, w1)"
      by (cases "save_mask (preds ! idx) (mask_path pp path) w")
    then have b1: "batch_steps w w1" by (rule batch_steps_save_mask)
    show ?thesis
    proof (cases r1)
      case None
      with Cons.prems it True s have "save_masks preds pp items w1 = (r, w')" by simp
      then have "batch_steps w1 w'" by (rule Cons.IH)
      with b1 show ?thesis by (rule batch_steps_trans)
    next
      case (Some e)
      with Cons.prems it True s have "w' = w1" by simp
      with b1 show ?thesis by simp
    qed
  qed
qed

lemma batch_steps_process_batch: "process_batch b m pp w = (r, w') \<Longrightarrow> batch_steps w w'"
  by (auto simp: process_batch_def split: prod.splits sum.splits
      dest!: batch_steps_open_images batch_steps_predict_masks batch_steps_save_masks
      intro: batch_steps_trans)

lemma batch_steps_step_task: "step_task m pp t w = (t', w') \<Longrightarrow> batch_steps w w'"
  by (induction m pp t w rule: step_task.induct)
     (auto split: prod.splits sum.splits option.splits if_splits
      dest!: batch_steps_open_images batch_steps_predict_masks batch_steps_save_mask
      intro: batch_steps_trans)

lemma batch_steps_step_at: "step_at m pp i (ts, w) = (ts', w') \<Longrightarrow> batch_steps w w'"
  by (auto simp: step_at_def split: if_splits prod.splits dest: batch_steps_step_task)

lemma batch_steps_finish_task: "finish_task m pp t w = (t', w') \<Longrightarrow> batch_steps w w'"
  by (cases t)
     (auto split: prod.splits option.splits
      dest!: batch_steps_process_batch batch_steps_save_masks)

lemma batch_steps_finish_all: "finish_all m pp ts w = (ts', w') \<Longrightarrow> batch_steps w w'"
proof (induction ts arbitrary: w ts' w')
  case Nil
  then show ?case by simp
next
  case (Cons t ts)
  obtain t1 w1 where f: "finish_task m pp t w = (t1, w1)" by (cases "finish_task m pp t w")
  obtain ts2 w2 where g: "finish_all m pp ts w1 = (ts2, w2)" by (cases "finish_all m pp ts w1")
  with Cons.prems f have "w' = w2" by simp
  with Cons.IH [OF g] batch_steps_finish_task [OF f] show ?case
    by (auto intro: batch_steps_trans)
qed

lemma finished_finish_task: "finish_task m pp t w = (t', w') \<Longrightarrow> finished t'"
  by (cases t) (auto split: prod.splits option.splits)

lemma finished_finish_all:
  "finish_all m pp ts w = (ts', w') \<Longrightarrow> length ts' = length ts \<and> list_all finished ts'"
proof (induction ts arbitrary: w ts' w')
  case Nil
  then show ?case by simp
next
  case (Cons t ts)
  obtain t1 w1 where f: "finish_task m pp t w = (t1, w1)" by (cases "finish_task m pp t w")
  obtain ts2 w2 where g: "finish_all m pp ts w1 = (ts2, w2)" by (cases "finish_all m pp ts w1")
  with Cons.prems f have "ts' = t1 # ts2" by simp
  with Cons.IH [OF g] finished_finish_task [OF f] show ?case by simp
qed

lemma length_step_at: "step_at m pp i (ts, w) = (ts', w') \<Longrightarrow> length ts' = length ts"
  by (auto simp: step_at_def split: if_splits prod.splits)


lemma files_fold_submit [simp]:
  "files (fold (\<lambda>b. log (EvSubmit b)) batches w) = files w"
  by (induction batches arbitrary: w) simp_all

lemma pool_steps_refl [simp]: "pool_steps w w"
  by (simp add: pool_steps_def)

lemma pool_steps_trans: "pool_steps w w' \<Longrightarrow> pool_steps w' w'' \<Longrightarrow> pool_steps w w''"
  by (auto simp: pool_steps_def)

lemma batch_event_pool: "list_all is_batch_event evs \<Longrightarrow> list_all is_pool_event evs"
proof (induction evs)
  case Nil
  show ?case by simp
next
  case (Cons e evs)
  then show ?case by (cases e) simp_all
qed

lemma batch_steps_pool_steps: "batch_steps w w' \<Longrightarrow> pool_steps w w'"
  by (auto simp: batch_steps_def pool_steps_def dest: batch_event_pool)

text \<open>
  Whatever holds between a world and the world after one step of a worker, after the
  tasks have run to their end and after a submission, and is reflexive and transitive,
  holds between the world before the \<open>with\<close> block and the world after it.
\<close>

lemma run_schedule_rel:
  assumes trans: "\<And>w1 w2 w3. R w1 w2 \<Longrightarrow> R w2 w3 \<Longrightarrow> R w1 w3"
    and refl: "\<And>w. R w w"
    and step: "\<And>i ts w ts' w'. step_at m pp i (ts, w) = (ts', w') \<Longrightarrow> R w w'"
    and sub: "\<And>b w. R w (log (EvSubmit b) w)"
  shows "run_schedule m pp sched (pending, ts, w) = (pending', ts', w') \<Longrightarrow> R w w'"
proof (induction sched arbitrary: pending ts w)
  case Nil
  then show ?case by (simp add: refl)
next
  case (Cons i sched)
  obtain p1 ts1 w1 where s: "step_pool m pp i (pending, ts, w) = (p1, ts1, w1)"
    by (cases "step_pool m pp i (pending, ts, w)")
  with Cons.prems have "run_schedule m pp sched (p1, ts1, w1) = (pending', ts', w')" by simp
  then have r: "R w1 w'" by (rule Cons.IH)
  have "R w w1"
  proof (cases "i < length ts")
    case True
    with s obtain ts2 where "step_at m pp i (ts, w) = (ts2, w1)"
      by (auto simp: step_pool_def split: prod.splits)
    then show ?thesis by (rule step)
  next
    case False
    with s show ?thesis
      by (auto simp: step_pool_def submit_next_def refl sub split: list.splits)
  qed
  then show ?case using r by (rule trans)
qed

lemma fold_submit_rel:
  assumes trans: "\<And>w1 w2 w3. R w1 w2 \<Longrightarrow> R w2 w3 \<Longrightarrow> R w1 w3"
    and refl: "\<And>w. R w w"
    and sub: "\<And>b w. R w (log (EvSubmit b) w)"
  shows "R w (fold (\<lambda>b. log (EvSubmit b)) batches w)"
proof (induction batches arbitrary: w)
  case Nil
  show ?case by (simp add: refl)
next
  case (Cons b batches)
  have "R w (log (EvSubmit b) w)" by (rule sub)
  then show ?case using Cons [of "log (EvSubmit b) w"] by (auto intro: trans)
qed

lemma dispatch_rel:
  assumes trans: "\<And>w1 w2 w3. R w1 w2 \<Longrightarrow> R w2 w3 \<Longrightarrow> R w1 w3"
    and refl: "\<And>w. R w w"
    and step: "\<And>i ts w ts' w'. step_at m pp i (ts, w) = (ts', w') \<Longrightarrow> R w w'"
    and fin: "\<And>ts w ts' w'. finish_all m pp ts w = (ts', w') \<Longrightarrow> R w w'"
    and sub: "\<And>b w. R w (log (EvSubmit b) w)"
    and d: "dispatch m pp sched batches w = (futures, w')"
  shows "R w w'"
proof -
  obtain p1 ts1 w1 where r: "run_schedule m pp sched (batches, [], w) = (p1, ts1, w1)"
    by (cases "run_schedule m pp sched (batches, [], w)")
  let ?w2 = "fold (\<lambda>b. log (EvSubmit b)) p1 w1"
  from d r have f: "finish_all m pp (ts1 @ map Pending p1) ?w2 = (futures, w')"
    by (simp add: dispatch_def submit_all_def wait_def)
  have "R w w1" by (rule run_schedule_rel [OF trans refl step sub r])
  moreover have "R w1 ?w2" by (rule fold_submit_rel [OF trans refl sub])
  moreover have "R ?w2 w'" by (rule fin [OF f])
  ultimately show ?thesis by (blast intro: trans)
qed

lemma pool_steps_dispatch:
  "dispatch m pp sched batches w = (futures, w') \<Longrightarrow> pool_steps w w'"
proof (rule dispatch_rel [where R = pool_steps and m = m and pp = pp])
  show "pool_steps w1 w3" if "pool_steps w1 w2" "pool_steps w2 w3" for w1 w2 w3
    using that by (rule pool_steps_trans)
  show "pool_steps w w" for w by simp
  show "pool_steps w w'" if "step_at m pp i (ts, w) = (ts', w')" for i ts w ts' w'
    using that by (auto dest!: batch_steps_step_at intro: batch_steps_pool_steps)
  show "pool_steps w w'" if "finish_all m pp ts w = (ts', w')" for ts w ts' w'
    using that by (auto dest!: batch_steps_finish_all intro: batch_steps_pool_steps)
  show "pool_steps w (log (EvSubmit b) w)" for b w
    by (simp add: pool_steps_def)
qed

lemma length_submit_next:
  "submit_next (pending, ts, w) = (pending', ts', w')
   \<Longrightarrow> length pending' + length ts' = length pending + length ts"
  by (auto simp: submit_next_def split: list.splits)

lemma length_step_pool:
  "step_pool m pp i (pending, ts, w) = (pending', ts', w')
   \<Longrightarrow> length pending' + length ts' = length pending + length ts"
  by (auto simp: step_pool_def split: if_splits prod.splits
      dest: length_step_at length_submit_next)

lemma length_run_schedule:
  "run_schedule m pp sched (pending, ts, w) = (pending', ts', w')
   \<Longrightarrow> length pending' + length ts' = length pending + length ts"
proof (induction sched arbitrary: pending ts w)
  case Nil
  then show ?case by simp
next
  case (Cons i sched)
  obtain p1 ts1 w1 where s: "step_pool m pp i (pending, ts, w) = (p1, ts1, w1)"
    by (cases "step_pool m pp i (pending, ts, w)")
  with Cons.prems have "run_schedule m pp sched (p1, ts1, w1) = (pending', ts', w')" by simp
  with Cons.IH length_step_pool [OF s] show ?case by simp
qed

lemma dispatch_trace:
  assumes "dispatch m pp sched batches w = (futures, w')"
  shows "length futures = length batches \<and> list_all finished futures
         \<and> (\<exists>evs. trace w' = trace w @ evs \<and> list_all is_pool_event evs)"
proof -
  obtain p1 ts1 w1 where r: "run_schedule m pp sched (batches, [], w) = (p1, ts1, w1)"
    by (cases "run_schedule m pp sched (batches, [], w)")
  with assms have f: "finish_all m pp (ts1 @ map Pending p1)
      (fold (\<lambda>b. log (EvSubmit b)) p1 w1) = (futures, w')"
    by (simp add: dispatch_def submit_all_def wait_def)
  from finished_finish_all [OF f] length_run_schedule [OF r]
  have "length futures = length batches" "list_all finished futures" by simp_all
  with pool_steps_dispatch [OF assms] show ?thesis
    by (auto simp: pool_steps_def)
qed


subsection \<open>The stages of \<open>predict\<close>\<close>

lemma batch_event_before: "list_all is_batch_event evs \<Longrightarrow> list_all before_georeference evs"
proof (induction evs)
  case Nil
  show ?case by simp
next
  case (Cons e evs)
  then show ?case by (cases e) simp_all
qed

lemma before_submit: "list_all before_georeference (map EvSubmit batches)"
  by (induction batches) simp_all

lemma predict_unfold:
  assumes "load_model cp = Inr model"
    and "makedirs pp (log (EvLoadModel cp) w) = (None, w2)"
    and "ceil_div_batch (length (glob (ip @ ''/*.png'') (files w2))) = Inr n"
    and "dispatch model pp sched (make_batches n (glob (ip @ ''/*.png'') (files w2)))
           (log (EvGlob (ip @ ''/*.png'')) w2) = (futures, w4)"
  shows "predict load_model georef sched cp ip pp w = georeference_and_cleanup georef pp w4"
  using assms by (simp add: predict_def Let_def)

lemma trace_makedirs: "makedirs pp w = (r, w') \<Longrightarrow> trace w' = trace w @ [EvMakedirs pp]"
  by (auto simp: makedirs_def Let_def split: if_splits option.splits node.splits)

lemma georeference_and_cleanup_result:
  "fst (georeference_and_cleanup georef pp w) = fst (georef pp pp (files w))"
  by (simp add: georeference_and_cleanup_def Let_def split: prod.splits option.splits)

lemma georeference_and_cleanup_trace:
  "trace (snd (georeference_and_cleanup georef pp w)) =
     trace w @ [EvGeoreference pp pp]
       @ (if fst (georef pp pp (files w)) = None
          then [EvRemoveFiles (pp @ ''/*.xml''), EvRemoveFiles (pp @ ''/*.png'')] else [])"
  by (simp add: georeference_and_cleanup_def Let_def split: prod.splits option.splits)

lemma georeference_and_cleanup_None:
  "georeference_and_cleanup georef pp w = (None, w') \<Longrightarrow> \<exists>w''. w' = cleanup pp w''"
  by (auto simp: georeference_and_cleanup_def Let_def split: prod.splits option.splits)

lemma predict_None:
  assumes "predict load_model georef sched cp ip pp w = (None, w')"
  shows "\<exists>w4. georeference_and_cleanup georef pp w4 = (None, w')"
  using assms
  by (auto simp: predict_def Let_def split: sum.splits prod.splits option.splits)

subsection \<open>The example run\<close>

lemma files_fold_mkdir:
  "fold mkdir_missing ks fs k = (if k \<in> set ks \<and> fs k = None then Some (Directory []) else fs k)"
  by (induction ks arbitrary: fs) (auto simp: mkdir_missing_def)

lemma makedirs_files:
  "makedirs pp w = (None, w')
   \<Longrightarrow> files w' k = (if k \<in> set (ancestors (resolve pp)) \<and> files w k = None
                      then Some (Directory []) else files w k)"
  by (auto simp: makedirs_def Let_def files_fold_mkdir split: if_splits)

lemma makedirs_files_Some:
  "makedirs pp w = (Some e, w') \<Longrightarrow> files w' = files w"
  by (auto simp: makedirs_def Let_def split: if_splits)

lemmas path_defs = resolve_def is_abs_def path_parts_def path_name_def path_stem_def
  os_path_split_def os_path_join_def rstrip_def glob_match_def ishidden_def mask_path_def

lemma example_makedirs:
  "makedirs ''out'' (log (EvLoadModel ''ckpt'') fresh_world) = (None, example_w2)"
  by (simp add: makedirs_def Let_def log_def fresh_world_def example_w2_def path_defs
      ancestors_def is_file_def mkdir_missing_def)

lemma example_glob: "glob ''in/*.png'' (files example_w2) = [''in/a.png'']"
  by (simp add: glob_def example_w2_def fresh_world_def listdir_def path_defs)

lemma ceil_div_batch_one: "ceil_div_batch (Suc 0) = Inr (Suc 0)"
  by (simp add: ceil_div_batch_def int_to_float_def BATCH_SIZE_def)

lemma example_batches: "make_batches (Suc 0) [''in/a.png''] = [[''in/a.png'']]"
  by (simp add: make_batches_def py_slice_def BATCH_SIZE_def)

lemma example_reshape: "reshape_tiles example_tile = Inr [example_tile]"
  by (simp add: reshape_tiles_def example_tile_def IMAGE_SIZE_def Let_def)

lemma example_masks:
  "predict_masks example_model example_tile w = (Inr [[[1], [0]]], log (EvInference 1) w)"
  by (simp add: predict_masks_def example_reshape example_model_def np_argmax_last_def
      np_argmax_def np_expand_dims_last_def np_where_gt_half_def where_gt_half_def Let_def)

lemma example_open:
  "files w (False, [''in'']) = Some (Directory [(''a.png'', Image None example_tile), (''notes.txt'', Blob)])
   \<Longrightarrow> open_images [''in/a.png''] w = (Inr example_tile, log (EvOpenImages [''in/a.png'']) w)"
  by (simp add: open_images_def Let_def read_file_def path_defs)

lemma example_dispatch:
  "dispatch example_model ''out'' [0, 0] [[''in/a.png'']] (log (EvGlob ''in/*.png'') example_w2)
     = ([Done], example_w4)"
  by (simp add: dispatch_def submit_all_def wait_def step_pool_def submit_next_def step_at_def
      example_open example_masks
      example_w2_def fresh_world_def List.enumerate_eq_zip save_mask_def write_file_def
      path_defs log_def example_w4_def)

subsection \<open>The glob after \<open>os.makedirs\<close>; a run without batches\<close>






subsection \<open>A batch that raises\<close>

lemma length_make_batches [simp]: "length (make_batches n xs) = n"
  by (simp add: make_batches_def)

text \<open>
  Claim C5, as amended. \<open>predict\<close> goes past the \<open>with\<close> block only when every future
  is done: each submitted batch has returned or raised. An exception raised by a batch
  stays in its future, which \<open>predict\<close> never reads: whatever the futures hold, \<open>predict\<close>
  goes on to the georeferencer and the cleanup, and its outcome is theirs. Nothing is
  cancelled and nothing times out: every task runs to its end.
\<close>

theorem batch_failure_kept_in_future:
  assumes "load_model cp = Inr model"
    and "makedirs pp (log (EvLoadModel cp) w) = (None, w2)"
    and "ceil_div_batch (length (glob (ip @ ''/*.png'') (files w2))) = Inr n"
  shows "\<exists>futures w4.
           dispatch model pp sched (make_batches n (glob (ip @ ''/*.png'') (files w2)))
             (log (EvGlob (ip @ ''/*.png'')) w2) = (futures, w4)
           \<and> length futures = n
           \<and> list_all finished futures
           \<and> predict load_model georef sched cp ip pp w = georeference_and_cleanup georef pp w4
           \<and> fst (predict load_model georef sched cp ip pp w) = fst (georef pp pp (files w4))
           \<and> trace (snd (predict load_model georef sched cp ip pp w))
               = trace w4 @ [EvGeoreference pp pp]
                 @ (if fst (georef pp pp (files w4)) = None
                    then [EvRemoveFiles (pp @ ''/*.xml''), EvRemoveFiles (pp @ ''/*.png'')]
                    else [])"
proof -
  let ?pat = "ip @ ''/*.png''"
  let ?batches = "make_batches n (glob ?pat (files w2))"
  obtain futures w4 where d: "dispatch model pp sched ?batches (log (EvGlob ?pat) w2) = (futures, w4)"
    by (cases "dispatch model pp sched ?batches (log (EvGlob ?pat) w2)")
  from dispatch_trace [OF d] have "length futures = n" and "list_all finished futures"
    by simp_all
  moreover have "predict load_model georef sched cp ip pp w = georeference_and_cleanup georef pp w4"
    by (rule predict_unfold [where load_model = load_model and cp = cp, OF assms d])
  ultimately show ?thesis
    using d by (simp add: georeference_and_cleanup_result georeference_and_cleanup_trace)
qed

lemma broken_makedirs:
  "makedirs ''out'' (log (EvLoadModel ''ckpt'') broken_world) = (None, broken_w2)"
  by (simp add: makedirs_def Let_def log_def broken_world_def broken_w2_def path_defs
      ancestors_def is_file_def mkdir_missing_def)

lemma broken_glob: "glob ''in/*.png'' (files broken_w2) = [''in/a.png'']"
  by (simp add: glob_def broken_w2_def broken_world_def listdir_def path_defs)

lemma broken_dispatch:
  "dispatch example_model ''out'' [] [[''in/a.png'']] (log (EvGlob ''in/*.png'') broken_w2)
     = ([Failed ImageFormatError], broken_w4)"
  by (simp add: dispatch_def submit_all_def wait_def process_batch_def open_images_def
      read_file_def Let_def broken_w2_def broken_world_def path_defs log_def broken_w4_def)

lemma broken_georeference: "fst (georeference ''out'' ''out'' (files broken_w4)) = None"
  by (simp add: georeference_def broken_w4_def path_defs)

theorem batch_failure_kept_in_future_witness:
  "example_load ''ckpt'' = Inr example_model
   \<and> makedirs ''out'' (log (EvLoadModel ''ckpt'') broken_world) = (None, broken_w2)
   \<and> ceil_div_batch (length (glob ''in/*.png'' (files broken_w2))) = Inr 1
   \<and> dispatch example_model ''out'' [] (make_batches 1 (glob ''in/*.png'' (files broken_w2)))
        (log (EvGlob ''in/*.png'') broken_w2) = ([Failed ImageFormatError], broken_w4)
   \<and> predict example_load georeference [] ''ckpt'' ''in'' ''out'' broken_world
       = georeference_and_cleanup georeference ''out'' broken_w4"
proof -
  have l: "example_load ''ckpt'' = Inr example_model" by (simp add: example_load_def)
  have c: "ceil_div_batch (length (glob (''in'' @ ''/*.png'') (files broken_w2))) = Inr 1"
    by (simp add: broken_glob ceil_div_batch_one)
  have d: "dispatch example_model ''out'' [] (make_batches 1 (glob (''in'' @ ''/*.png'') (files broken_w2)))
        (log (EvGlob (''in'' @ ''/*.png'')) broken_w2) = ([Failed ImageFormatError], broken_w4)"
    by (simp add: broken_glob example_batches broken_dispatch)
  from batch_failure_kept_in_future [where load_model = example_load and cp = "''ckpt''"
      and georef = georeference and sched = "[]", OF l broken_makedirs c]
  obtain futures w4 where
    "dispatch example_model ''out'' [] (make_batches 1 (glob (''in'' @ ''/*.png'') (files broken_w2)))
        (log (EvGlob (''in'' @ ''/*.png'')) broken_w2) = (futures, w4)"
    and "predict example_load georeference [] ''ckpt'' ''in'' ''out'' broken_world
       = georeference_and_cleanup georeference ''out'' w4"
    by blast
  with d have "predict example_load georeference [] ''ckpt'' ''in'' ''out'' broken_world
       = georeference_and_cleanup georeference ''out'' broken_w4"
    by simp
  with l broken_makedirs c d show ?thesis by simp
qed

text \<open>
  Claim C5 as the spec states it fails: the only tile of \<open>broken_world\<close> does not decode,
  the one batch ends with \<open>ImageFormatError\<close>, and \<open>predict\<close> georeferences, cleans up and
  returns without error.
\<close>

theorem batch_failure_propagates_counterexample:
  "makedirs ''out'' (log (EvLoadModel ''ckpt'') broken_world) = (None, broken_w2)
   \<and> make_batches 1 (glob ''in/*.png'' (files broken_w2)) = [[''in/a.png'']]
   \<and> fst (dispatch example_model ''out'' [] [[''in/a.png'']] (log (EvGlob ''in/*.png'') broken_w2))
       = [Failed ImageFormatError]
   \<and> fst (predict example_load georeference [] ''ckpt'' ''in'' ''out'' broken_world) = None
   \<and> trace (snd (predict example_load georeference [] ''ckpt'' ''in'' ''out'' broken_world))
       = [EvLoadModel ''ckpt'', EvMakedirs ''out'', EvGlob ''in/*.png'',
          EvSubmit [''in/a.png''], EvOpenImages [''in/a.png''],
          EvGeoreference ''out'' ''out'', EvRemoveFiles ''out/*.xml'',
          EvRemoveFiles ''out/*.png'']"
proof -
  have l: "example_load ''ckpt'' = Inr example_model" by (simp add: example_load_def)
  have c: "ceil_div_batch (length (glob (''in'' @ ''/*.png'') (files broken_w2))) = Inr 1"
    by (simp add: broken_glob ceil_div_batch_one)
  have d: "dispatch example_model ''out'' [] (make_batches 1 (glob (''in'' @ ''/*.png'') (files broken_w2)))
        (log (EvGlob (''in'' @ ''/*.png'')) broken_w2) = ([Failed ImageFormatError], broken_w4)"
    by (simp add: broken_glob example_batches broken_dispatch)
  have p: "predict example_load georeference [] ''ckpt'' ''in'' ''out'' broken_world
       = georeference_and_cleanup georeference ''out'' broken_w4"
    by (rule predict_unfold [where load_model = example_load and cp = "''ckpt''",
          OF l broken_makedirs c d])
  have t4: "trace broken_w4 = [EvLoadModel ''ckpt'', EvMakedirs ''out'', EvGlob ''in/*.png'',
               EvSubmit [''in/a.png''], EvOpenImages [''in/a.png'']]"
    by (simp add: broken_w4_def)
  have b: "make_batches 1 (glob ''in/*.png'' (files broken_w2)) = [[''in/a.png'']]"
    by (simp add: broken_glob example_batches)
  from p have "fst (predict example_load georeference [] ''ckpt'' ''in'' ''out'' broken_world) = None"
    by (simp add: georeference_and_cleanup_result broken_georeference)
  moreover from p have "trace (snd (predict example_load georeference [] ''ckpt'' ''in'' ''out'' broken_world))
       = [EvLoadModel ''ckpt'', EvMakedirs ''out'', EvGlob ''in/*.png'',
          EvSubmit [''in/a.png''], EvOpenImages [''in/a.png''],
          EvGeoreference ''out'' ''out'', EvRemoveFiles ''out/*.xml'',
          EvRemoveFiles ''out/*.png'']"
    by (simp add: georeference_and_cleanup_trace broken_georeference t4)
  ultimately show ?thesis
    using broken_makedirs b broken_dispatch by simp
qed


subsection \<open>What is left in the output directory\<close>

lemma georeference_and_cleanup_None_files:
  "georeference_and_cleanup georef pp w = (None, w')
   \<Longrightarrow> \<exists>fs5. georef pp pp (files w) = (None, fs5)
            \<and> w' = cleanup pp ((log (EvGeoreference pp pp) w)\<lparr>files := fs5\<rparr>)"
  by (auto simp: georeference_and_cleanup_def Let_def split: prod.splits option.splits)

text \<open>
  Claim C2, as amended. After \<open>predict\<close> has returned without error, the glob of
  \<open>prediction_path\<close> for \<open>*.png\<close> is empty and so is the glob for \<open>*.xml\<close>: no mask,
  georeferenced or not, is left under a \<open>.png\<close> name. The file system is what the
  georeferencer returned, less the files of the two patterns.
\<close>

theorem predict_leaves_no_png:
  assumes "predict load_model georef sched cp ip pp w = (None, w')"
  shows "glob (pp @ ''/*.png'') (files w') = []
         \<and> glob (pp @ ''/*.xml'') (files w') = []
         \<and> (\<exists>fs4 fs5. georef pp pp fs4 = (None, fs5)
               \<and> files w' = files (cleanup pp \<lparr>files = fs5, trace = []\<rparr>))"
proof -
  from predict_None [OF assms] obtain w4 where
    "georeference_and_cleanup georef pp w4 = (None, w')" by blast
  from georeference_and_cleanup_None_files [OF this] obtain fs5 where
    g: "georef pp pp (files w4) = (None, fs5)"
    and w': "w' = cleanup pp ((log (EvGeoreference pp pp) w4)\<lparr>files := fs5\<rparr>)"
    by blast
  have "files w' = files (cleanup pp \<lparr>files = fs5, trace = []\<rparr>)"
    by (simp add: w' files_cleanup split: option.splits node.splits)
  with g w' show ?thesis
    using glob_after_cleanup [of pp] by blast
qed

lemma example_predict:
  "predict example_load georeference [0, 0] ''ckpt'' ''in'' ''out'' fresh_world
     = georeference_and_cleanup georeference ''out'' example_w4"
proof -
  have l: "example_load ''ckpt'' = Inr example_model" by (simp add: example_load_def)
  have c: "ceil_div_batch (length (glob (''in'' @ ''/*.png'') (files example_w2))) = Inr 1"
    by (simp add: example_glob ceil_div_batch_one)
  have d: "dispatch example_model ''out'' [0, 0]
        (make_batches 1 (glob (''in'' @ ''/*.png'') (files example_w2)))
        (log (EvGlob (''in'' @ ''/*.png'')) example_w2) = ([Done], example_w4)"
    by (simp add: example_glob example_batches example_dispatch)
  show ?thesis
    by (rule predict_unfold [where load_model = example_load and cp = "''ckpt''",
          OF l example_makedirs c d])
qed

lemma example_georeference:
  "georeference ''out'' ''out'' (files example_w4)
     = (None, (files fresh_world)((False, [''out'']) \<mapsto>
                 Directory [(''a.png'', Image (Some ''EPSG:3857'') [1, 0])]))"
  by (simp add: georeference_def example_w4_def write_file_def path_defs)

lemma example_outcome:
  "fst (predict example_load georeference [0, 0] ''ckpt'' ''in'' ''out'' fresh_world) = None"
  by (simp add: example_predict georeference_and_cleanup_result example_georeference)

lemma example_final_out:
  "files (snd (predict example_load georeference [0, 0] ''ckpt'' ''in'' ''out'' fresh_world))
     (False, [''out'']) = Some (Directory [])"
  by (simp add: example_predict georeference_and_cleanup_def Let_def example_georeference
      files_cleanup resolve_out glob_match_def ishidden_def)

theorem predict_leaves_no_png_witness:
  "fst (predict example_load georeference [0, 0] ''ckpt'' ''in'' ''out'' fresh_world) = None
   \<and> glob ''out/*.png''
        (files (snd (predict example_load georeference [0, 0] ''ckpt'' ''in'' ''out'' fresh_world)))
       = []
   \<and> glob ''out/*.xml''
        (files (snd (predict example_load georeference [0, 0] ''ckpt'' ''in'' ''out'' fresh_world)))
       = []"
proof -
  let ?p = "predict example_load georeference [0, 0] ''ckpt'' ''in'' ''out'' fresh_world"
  have "?p = (None, snd ?p)"
    using example_outcome by (simp add: prod_eq_iff)
  from predict_leaves_no_png [OF this]
  have "glob (''out'' @ ''/*.png'') (files (snd ?p)) = []"
    and "glob (''out'' @ ''/*.xml'') (files (snd ?p)) = []"
    by blast+
  with example_outcome show ?thesis by simp
qed

text \<open>
  Claim C2 as the spec states it fails: with one valid tile \<open>in/a.png\<close> and the
  georeferencer of the spec, which rewrites \<open>out/a.png\<close> in place, \<open>predict\<close> returns
  without error and \<open>out\<close> is empty; there is no \<open>out/a.png\<close>.
\<close>

theorem png_output_counterexample:
  "glob ''in/*.png'' (files fresh_world) = [''in/a.png'']
   \<and> fst (predict example_load georeference [0, 0] ''ckpt'' ''in'' ''out'' fresh_world) = None
   \<and> listdir ''out''
        (files (snd (predict example_load georeference [0, 0] ''ckpt'' ''in'' ''out'' fresh_world)))
       = []
   \<and> read_file ''out/a.png''
        (files (snd (predict example_load georeference [0, 0] ''ckpt'' ''in'' ''out'' fresh_world)))
       = None"
proof -
  have "glob ''in/*.png'' (files fresh_world) = [''in/a.png'']"
    by (simp add: glob_def fresh_world_def listdir_def path_defs)
  moreover have "listdir ''out''
        (files (snd (predict example_load georeference [0, 0] ''ckpt'' ''in'' ''out'' fresh_world)))
       = []"
    using example_final_out by (simp add: listdir_def path_defs)
  moreover have "read_file ''out/a.png''
        (files (snd (predict example_load georeference [0, 0] ''ckpt'' ''in'' ''out'' fresh_world)))
       = None"
    using example_final_out by (simp add: read_file_def path_defs)
  ultimately show ?thesis using example_outcome by simp
qed

subsection \<open>Binarisation\<close>

lemma saved_append [simp]: "saved (xs @ ys) = saved xs @ saved ys"
  by (induction xs rule: saved.induct) simp_all

lemma where_gt_half_eq: "where_gt_half c = (if 1 \<le> c then 1 else 0)"
  by (cases c) (simp_all add: where_gt_half_def)

lemma binarise_pixels: "px \<in> set (binarise sc) \<Longrightarrow> px = [0] \<or> px = [1]"
  by (auto simp: binarise_def where_gt_half_def)

lemma predict_masks_Inr:
  assumes "predict_masks model images w = (Inr preds, w')"
  shows "\<exists>tiles scores. reshape_tiles images = Inr tiles \<and> model tiles = Inr scores
           \<and> (\<forall>t\<in>set scores. [] \<notin> set t)
           \<and> preds = map binarise scores
           \<and> w' = log (EvInference (length tiles)) w"
  using assms
  by (auto simp: predict_masks_def Let_def np_argmax_last_def np_expand_dims_last_def
      np_where_gt_half_def binarise_def split: sum.splits if_splits)

lemma np_argmax_nonempty: "px \<noteq> [] \<Longrightarrow> \<exists>c. np_argmax px = Inr c"
  by (cases px) (simp_all add: np_argmax_def)

lemma save_masks_events:
  "save_masks preds pp items w = (r, w') \<Longrightarrow>
   \<exists>k\<le>length items.
      trace w' = trace w @ map (\<lambda>(idx, path). EvSaveMask (mask_path pp path) (preds ! idx)) (take k items)
      \<and> (\<forall>it\<in>set (take k items). fst it < length preds)
      \<and> (r = None \<longrightarrow> k = length items)
      \<and> (\<forall>e. r = Some e \<longrightarrow> k < length items
            \<and> (if fst (items ! k) < length preds then e = OSError else e = IndexError))"
proof (induction items arbitrary: w)
  case Nil
  then show ?case by simp
next
  case (Cons it items)
  obtain idx path where it: "it = (idx, path)" by (cases it)
  show ?case
  proof (cases "idx < length preds")
    case False
    with Cons.prems it have "r = Some IndexError" "w' = w" by simp_all
    with False it show ?thesis by (intro exI [of _ 0]) simp
  next
    case True
    show ?thesis
    proof (cases "write_file (mask_path pp path) (Image None (concat (preds ! idx))) (files w)")
      case None
      with Cons.prems it True have "r = Some OSError" "w' = w"
        by (simp_all add: save_mask_def)
      with True it show ?thesis by (intro exI [of _ 0]) simp
    next
      case (Some fs')
      let ?w1 = "log (EvSaveMask (mask_path pp path) (preds ! idx)) (w\<lparr>files := fs'\<rparr>)"
      from Cons.prems it True Some have "save_masks preds pp items ?w1 = (r, w')"
        by (simp add: save_mask_def)
      from Cons.IH [OF this] obtain k where k: "k \<le> length items"
        "trace w' = trace ?w1 @ map (\<lambda>(idx, path). EvSaveMask (mask_path pp path) (preds ! idx)) (take k items)"
        "\<forall>it\<in>set (take k items). fst it < length preds"
        "r = None \<longrightarrow> k = length items"
        "\<forall>e. r = Some e \<longrightarrow> k < length items
            \<and> (if fst (items ! k) < length preds then e = OSError else e = IndexError)"
        by blast
      with True it show ?thesis
        by (intro exI [of _ "Suc k"]) (simp add: log_def)
    qed
  qed
qed

lemma saved_map_save:
  "saved (map (\<lambda>(idx, path). EvSaveMask (mask_path pp path) (preds ! idx)) items)
     = map (\<lambda>(idx, path). (mask_path pp path, preds ! idx)) items"
  by (induction items) auto

lemma new_events_append: "trace w' = trace w @ evs \<Longrightarrow> new_events w w' = evs"
  by (simp add: new_events_def)

lemma process_batch_saved:
  fixes model :: "('a::linorder) model"
  assumes "process_batch image_batch model pp w = (r, w')"
  shows "\<forall>pm\<in>set (saved (new_events w w')). \<forall>px\<in>set (snd pm). px = [0] \<or> px = [1]"
proof (cases "open_images image_batch w")
  case (Pair r1 w1)
  have t1: "trace w1 = trace w @ [EvOpenImages image_batch]"
    using Pair by (auto simp: open_images_def Let_def split: option.splits)
  show ?thesis
  proof (cases r1)
    case (Inl e)
    with Pair assms have "w' = w1" by (simp add: process_batch_def)
    with t1 show ?thesis by (simp add: new_events_append)
  next
    case (Inr images)
    obtain r2 w2 where pm: "predict_masks model images w1 = (r2, w2)"
      by (cases "predict_masks model images w1")
    show ?thesis
    proof (cases r2)
      case (Inl e)
      with Pair Inr pm assms have w': "w' = w2" by (simp add: process_batch_def)
      from batch_steps_predict_masks [OF pm] obtain evs where
        "trace w2 = trace w1 @ evs" by (auto simp: batch_steps_def)
      moreover from pm Inl have "w2 = w1 \<or> (\<exists>n. w2 = log (EvInference n) w1)"
        by (auto simp: predict_masks_def Let_def split: sum.splits)
      ultimately show ?thesis using t1 w'
        by (auto simp: new_events_def)
    next
      case r2: (Inr preds)
      from predict_masks_Inr [OF pm [unfolded r2]]
      obtain tiles :: "int list list" and scores :: "'a fl list list list" where
        preds: "preds = map binarise scores"
        and w2: "w2 = log (EvInference (length tiles)) w1"
        by blast
      from Pair Inr pm r2 assms
      have "save_masks preds pp (List.enumerate 0 image_batch) w2 = (r, w')"
        by (simp add: process_batch_def)
      from save_masks_events [OF this] obtain k where
        tr: "trace w' = trace w2 @ map (\<lambda>(idx, path). EvSaveMask (mask_path pp path) (preds ! idx))
               (take k (List.enumerate 0 image_batch))"
        and idx: "\<forall>it\<in>set (take k (List.enumerate 0 image_batch)). fst it < length preds"
        by blast
      let ?items = "take k (List.enumerate 0 image_batch)"
      from tr w2 t1 have "new_events w w' = [EvOpenImages image_batch, EvInference (length tiles)]
          @ map (\<lambda>(idx, path). EvSaveMask (mask_path pp path) (preds ! idx)) ?items"
        by (simp add: new_events_def)
      then have sv: "saved (new_events w w')
          = map (\<lambda>(idx, path). (mask_path pp path, preds ! idx)) ?items"
        by (simp add: saved_map_save)
      show ?thesis
      proof (intro ballI)
        fix pm px
        assume "pm \<in> set (saved (new_events w w'))" and px: "px \<in> set (snd pm)"
        with sv obtain i path where "(i, path) \<in> set ?items" and "snd pm = preds ! i"
          by auto
        with idx have "i < length preds" by auto
        with preds \<open>snd pm = preds ! i\<close> have "snd pm = binarise (scores ! i)" by simp
        with px show "px = [0] \<or> px = [1]" by (auto dest: binarise_pixels)
      qed
    qed
  qed
qed

text \<open>
  Claim C3. The value written for a class index is \<open>1\<close> when the index, as a number, is
  greater than \<open>0.5\<close> and \<open>0\<close> otherwise, which is \<open>1\<close> for every index from \<open>1\<close> on and \<open>0\<close>
  for the index \<open>0\<close>. When lines 27 to 32 of \<open>process_batch\<close> succeed, the masks are, tile by
  tile and pixel by pixel, that value for the arg-max of the scores the model returned,
  so each pixel is \<open>[0]\<close> or \<open>[1]\<close>; and every mask that \<open>process_batch\<close> saves has only
  such pixels.
\<close>

theorem masks_are_binarised_argmax:
  "where_gt_half c = (if 0.5 < real c then 1 else 0)
   \<and> where_gt_half c = (if 1 \<le> c then 1 else 0)
   \<and> (\<forall>preds w1. predict_masks model images w = (Inr preds, w1) \<longrightarrow>
         (\<exists>tiles scores.
            reshape_tiles images = Inr tiles \<and> model tiles = Inr scores
            \<and> length preds = length scores
            \<and> (\<forall>i<length scores.
                  length (preds ! i) = length (scores ! i)
                  \<and> (\<forall>j<length (scores ! i).
                        \<exists>k. np_argmax (scores ! i ! j) = Inr k
                            \<and> preds ! i ! j = [where_gt_half k]
                            \<and> (preds ! i ! j = [0] \<or> preds ! i ! j = [1])))))
   \<and> (\<forall>r w2. process_batch image_batch model prediction_path w = (r, w2) \<longrightarrow>
         (\<forall>pm\<in>set (saved (new_events w w2)). \<forall>px\<in>set (snd pm). px = [0] \<or> px = [1]))"
proof (intro conjI allI impI)
  show "where_gt_half c = (if 0.5 < real c then 1 else 0)"
    by (simp add: where_gt_half_def)
  show "where_gt_half c = (if 1 \<le> c then 1 else 0)"
    by (rule where_gt_half_eq)
next
  fix preds w1
  assume "predict_masks model images w = (Inr preds, w1)"
  from predict_masks_Inr [OF this] obtain tiles scores where
    r: "reshape_tiles images = Inr tiles" and m: "model tiles = Inr scores"
    and ne: "\<forall>t\<in>set scores. [] \<notin> set t"
    and preds: "preds = map binarise scores"
    by blast
  have "\<exists>k. np_argmax (scores ! i ! j) = Inr k
            \<and> preds ! i ! j = [where_gt_half k]
            \<and> (preds ! i ! j = [0] \<or> preds ! i ! j = [1])"
    if i: "i < length scores" and j: "j < length (scores ! i)" for i j
  proof -
    from i j ne have "scores ! i ! j \<noteq> []"
      by (metis nth_mem)
    then obtain k where k: "np_argmax (scores ! i ! j) = Inr k"
      using np_argmax_nonempty by blast
    with i j preds have "preds ! i ! j = [where_gt_half k]"
      by (simp add: binarise_def)
    with k show ?thesis by (auto simp: where_gt_half_def)
  qed
  moreover have "\<forall>i<length scores. length (preds ! i) = length (scores ! i)"
    using preds by (simp add: binarise_def)
  moreover have "length preds = length scores" using preds by simp
  ultimately show "\<exists>tiles scores.
            reshape_tiles images = Inr tiles \<and> model tiles = Inr scores
            \<and> length preds = length scores
            \<and> (\<forall>i<length scores.
                  length (preds ! i) = length (scores ! i)
                  \<and> (\<forall>j<length (scores ! i).
                        \<exists>k. np_argmax (scores ! i ! j) = Inr k
                            \<and> preds ! i ! j = [where_gt_half k]
                            \<and> (preds ! i ! j = [0] \<or> preds ! i ! j = [1])))"
    using r m by blast
next
  fix r w2
  assume "process_batch image_batch model prediction_path w = (r, w2)"
  then show "\<forall>pm\<in>set (saved (new_events w w2)). \<forall>px\<in>set (snd pm). px = [0] \<or> px = [1]"
    by (rule process_batch_saved)
qed


lemma example_process_batch_saved:
  "saved (new_events example_w2 (snd (process_batch [''in/a.png''] example_model ''out'' example_w2)))
     = [(''out/a.png'', [[1], [0]])]"
  by (simp add: process_batch_def example_open example_masks example_w2_def fresh_world_def
      List.enumerate_eq_zip save_mask_def write_file_def path_defs log_def new_events_def)

theorem masks_are_binarised_argmax_witness:
  "predict_masks example_model example_tile fresh_world
     = (Inr [[[1], [0]]], log (EvInference 1) fresh_world)
   \<and> (\<exists>tiles scores. reshape_tiles example_tile = Inr tiles
          \<and> example_model tiles = Inr scores \<and> length scores = 1)
   \<and> np_argmax [Num 1, Num (2::int)] = Inr 1
   \<and> np_argmax [Num 3, Num (1::int)] = Inr 0
   \<and> where_gt_half 1 = 1
   \<and> where_gt_half 0 = 0
   \<and> saved (new_events example_w2
        (snd (process_batch [''in/a.png''] example_model ''out'' example_w2)))
       = [(''out/a.png'', [[1], [0]])]
   \<and> list_all (\<lambda>px. px = [0] \<or> px = [1]) [[1], [0 :: int]]"
proof -
  note T = masks_are_binarised_argmax [where model = example_model and images = example_tile
      and w = fresh_world and image_batch = "[''in/a.png'']" and prediction_path = "''out''"]
  note U = masks_are_binarised_argmax [where model = example_model and images = example_tile
      and w = example_w2 and image_batch = "[''in/a.png'']" and prediction_path = "''out''"
      and c = 0]
  let ?w2 = "snd (process_batch [''in/a.png''] example_model ''out'' example_w2)"
  from T [where c = 1] have one: "where_gt_half 1 = 1" by simp
  from T [where c = 0] have zero: "where_gt_half 0 = 0" by simp
  from T [where c = 0] example_masks [of fresh_world]
  obtain tiles scores where "reshape_tiles example_tile = Inr tiles"
    "example_model tiles = Inr scores" "length [[[1], [0 :: int]]] = length scores"
    by blast
  then have ex: "\<exists>tiles scores. reshape_tiles example_tile = Inr tiles
          \<and> example_model tiles = Inr scores \<and> length scores = 1"
    by auto
  have "process_batch [''in/a.png''] example_model ''out'' example_w2
          = (fst (process_batch [''in/a.png''] example_model ''out'' example_w2), ?w2)"
    by simp
  with U have "\<forall>pm\<in>set (saved (new_events example_w2 ?w2)).
                 \<forall>px\<in>set (snd pm). px = [0] \<or> px = [1]"
    by blast
  then have px: "list_all (\<lambda>px. px = [0] \<or> px = [1]) [[1], [0 :: int]]"
    by (simp add: example_process_batch_saved)
  have "np_argmax [Num 1, Num (2::int)] = Inr 1" "np_argmax [Num 3, Num (1::int)] = Inr 0"
    by (simp_all add: np_argmax_def)
  with one zero ex px example_masks [of fresh_world] example_process_batch_saved
  show ?thesis by simp
qed


subsection \<open>Names of tiles and of masks\<close>

lemma split_on_nonempty [simp]: "split_on c xs \<noteq> []"
  by (induction xs) (auto split: list.splits)

lemma split_on_append: "split_on c (xs @ c # ys) = split_on c xs @ split_on c ys"
  by (induction xs) (auto split: list.splits)

lemma split_on_free: "c \<notin> set ys \<Longrightarrow> split_on c ys = [ys]"
  by (induction ys) auto

lemma split_on_parts_free: "w \<in> set (split_on c xs) \<Longrightarrow> c \<notin> set w"
proof (induction xs arbitrary: w)
  case Nil
  then show ?case by simp
next
  case (Cons x xs)
  then show ?case
    by (cases "split_on c xs") (auto split: if_splits)
qed

lemma path_parts_join:
  assumes "CHR ''/'' \<notin> set n" and "n \<noteq> []" and "n \<noteq> ''.''"
  shows "path_parts (d @ ''/'' @ n) = path_parts d @ [n]"
  using assms by (simp add: path_parts_def split_on_append split_on_free)


lemma path_name_free: "CHR ''/'' \<notin> set (path_name p)"
proof (cases "path_parts p = []")
  case True
  then show ?thesis by (simp add: path_name_def)
next
  case False
  then have "last (path_parts p) \<in> set (path_parts p)" by simp
  then have "last (path_parts p) \<in> set (split_on CHR ''/'' p)"
    by (simp add: path_parts_def)
  with False show ?thesis by (simp add: path_name_def split_on_parts_free)
qed






subsection \<open>Counting the saved masks\<close>

lemma saved_paths_log_save [simp]:
  "saved_paths (log (EvSaveMask p m) w) = add_mset p (saved_paths w)"
  by (simp add: saved_paths_def)

lemma saved_paths_files [simp]: "saved_paths (w\<lparr>files := f\<rparr>) = saved_paths w"
  by (simp add: saved_paths_def)























subsection \<open>Saved masks stay on disk\<close>

lemma write_file_read_same: "write_file p c fs = Some fs' \<Longrightarrow> read_file p fs' = Some c"
  by (auto simp: write_file_def read_file_def update_conv' split: if_splits option.splits node.splits)

lemma write_file_read_other:
  "write_file p c fs = Some fs' \<Longrightarrow> read_file q fs \<noteq> None \<Longrightarrow> read_file q fs' \<noteq> None"
  by (auto simp: write_file_def read_file_def update_conv' split: if_splits option.splits node.splits)

lemma kept_refl [simp]: "kept w w"
  by (simp add: kept_def)

lemma kept_trans:
  assumes "kept w w'" and "kept w' w''"
  shows "kept w w''"
proof -
  from assms(1) obtain evs1 where 1: "trace w' = trace w @ evs1"
    "list_all (\<lambda>pm. read_file (fst pm) (files w') \<noteq> None) (saved evs1)"
    and k1: "\<forall>q. read_file q (files w) \<noteq> None \<longrightarrow> read_file q (files w') \<noteq> None"
    by (auto simp: kept_def)
  from assms(2) obtain evs2 where 2: "trace w'' = trace w' @ evs2"
    "list_all (\<lambda>pm. read_file (fst pm) (files w'') \<noteq> None) (saved evs2)"
    and k2: "\<forall>q. read_file q (files w') \<noteq> None \<longrightarrow> read_file q (files w'') \<noteq> None"
    by (auto simp: kept_def)
  from 1(2) k2 have "list_all (\<lambda>pm. read_file (fst pm) (files w'') \<noteq> None) (saved evs1)"
    by (auto simp: list_all_iff)
  with 1(1) 2 have "trace w'' = trace w @ (evs1 @ evs2)
      \<and> list_all (\<lambda>pm. read_file (fst pm) (files w'') \<noteq> None) (saved (evs1 @ evs2))"
    by simp
  with k1 k2 show ?thesis unfolding kept_def by blast
qed

lemma kept_open_images: "open_images ps w = (r, w') \<Longrightarrow> kept w w'"
  by (auto simp: open_images_def Let_def kept_def split: option.splits)

lemma kept_predict_masks: "predict_masks m images w = (r, w') \<Longrightarrow> kept w w'"
  by (auto simp: predict_masks_def Let_def kept_def split: sum.splits)

lemma kept_save_mask: "save_mask m p w = (r, w') \<Longrightarrow> kept w w'"
  by (auto simp: save_mask_def kept_def write_file_read_same
      split: option.splits dest: write_file_read_other)

lemma kept_save_masks: "save_masks preds pp items w = (r, w') \<Longrightarrow> kept w w'"
proof (induction items arbitrary: w)
  case Nil
  then show ?case by simp
next
  case (Cons it items)
  obtain idx path where it: "it = (idx, path)" by (cases it)
  show ?case
  proof (cases "idx < length preds")
    case False
    with Cons.prems it show ?thesis by simp
  next
    case True
    obtain r1 w1 where s: "save_mask (preds ! idx) (mask_path pp path) w = (r1, w1)"
      by (cases "save_mask (preds ! idx) (mask_path pp path) w")
    then have b1: "kept w w1" by (rule kept_save_mask)
    show ?thesis
    proof (cases r1)
      case None
      with Cons.prems it True s have "save_masks preds pp items w1 = (r, w')" by simp
      then have "kept w1 w'" by (rule Cons.IH)
      with b1 show ?thesis by (rule kept_trans)
    next
      case (Some e)
      with Cons.prems it True s have "w' = w1" by simp
      with b1 show ?thesis by simp
    qed
  qed
qed

lemma kept_process_batch: "process_batch b m pp w = (r, w') \<Longrightarrow> kept w w'"
  by (auto simp: process_batch_def split: prod.splits sum.splits
      dest!: kept_open_images kept_predict_masks kept_save_masks
      intro: kept_trans)

lemma kept_step_task: "step_task m pp t w = (t', w') \<Longrightarrow> kept w w'"
  by (induction m pp t w rule: step_task.induct)
     (auto split: prod.splits sum.splits option.splits if_splits
      dest!: kept_open_images kept_predict_masks kept_save_mask
      intro: kept_trans)

lemma kept_step_at: "step_at m pp i (ts, w) = (ts', w') \<Longrightarrow> kept w w'"
  by (auto simp: step_at_def split: if_splits prod.splits dest: kept_step_task)

lemma kept_finish_task: "finish_task m pp t w = (t', w') \<Longrightarrow> kept w w'"
  by (cases t)
     (auto split: prod.splits option.splits
      dest!: kept_process_batch kept_save_masks)

lemma kept_finish_all: "finish_all m pp ts w = (ts', w') \<Longrightarrow> kept w w'"
proof (induction ts arbitrary: w ts' w')
  case Nil
  then show ?case by simp
next
  case (Cons t ts)
  obtain t1 w1 where f: "finish_task m pp t w = (t1, w1)" by (cases "finish_task m pp t w")
  obtain ts2 w2 where g: "finish_all m pp ts w1 = (ts2, w2)" by (cases "finish_all m pp ts w1")
  with Cons.prems f have "w' = w2" by simp
  with Cons.IH [OF g] kept_finish_task [OF f] show ?case
    by (auto intro: kept_trans)
qed

lemma kept_dispatch: "dispatch m pp sched batches w = (futures, w') \<Longrightarrow> kept w w'"
proof (rule dispatch_rel [where R = kept and m = m and pp = pp])
  show "kept w1 w3" if "kept w1 w2" "kept w2 w3" for w1 w2 w3
    using that by (rule kept_trans)
  show "kept w w" for w by simp
  show "kept w w'" if "step_at m pp i (ts, w) = (ts', w')" for i ts w ts' w'
    using that by (rule kept_step_at)
  show "kept w w'" if "finish_all m pp ts w = (ts', w')" for ts w ts' w'
    using that by (rule kept_finish_all)
  show "kept w (log (EvSubmit b) w)" for b w
    by (simp add: kept_def)
qed

lemma is_abs_join: "d \<noteq> [] \<Longrightarrow> is_abs (d @ ''/'' @ n) = is_abs d"
  by (cases d) (simp_all add: is_abs_def)








subsection \<open>The reshape and the pairing of masks with paths\<close>

lemma TILE_LEN_pos: "0 < TILE_LEN"
  by (simp add: TILE_LEN_def IMAGE_SIZE_def)

lemma reshape_tiles_cases:
  "reshape_tiles images =
     (if length images mod TILE_LEN = 0
      then Inr (map (\<lambda>i. take TILE_LEN (drop (i * TILE_LEN) images)) [0..<length images div TILE_LEN])
      else Inl ValueError)"
  by (simp add: reshape_tiles_def TILE_LEN_def Let_def)

lemma reshape_tiles_Inr:
  assumes "reshape_tiles images = Inr tiles"
  shows "length images = length tiles * TILE_LEN"
    and "\<forall>i<length tiles. tiles ! i = take TILE_LEN (drop (i * TILE_LEN) images)"
    and "\<forall>i<length tiles. length (tiles ! i) = TILE_LEN"
proof -
  from assms have m: "length images mod TILE_LEN = 0"
    and t: "tiles = map (\<lambda>i. take TILE_LEN (drop (i * TILE_LEN) images)) [0..<length images div TILE_LEN]"
    by (auto simp: reshape_tiles_cases split: if_splits)
  from t have l: "length tiles = length images div TILE_LEN" by simp
  with m show len: "length images = length tiles * TILE_LEN"
    by (metis mult.commute mult_div_mod_eq add.right_neutral)
  from t l show nth: "\<forall>i<length tiles. tiles ! i = take TILE_LEN (drop (i * TILE_LEN) images)"
    by simp
  show "\<forall>i<length tiles. length (tiles ! i) = TILE_LEN"
  proof (intro allI impI)
    fix i assume i: "i < length tiles"
    then have "Suc i * TILE_LEN \<le> length tiles * TILE_LEN"
      by (intro mult_le_mono1) simp
    with len have "TILE_LEN \<le> length images - i * TILE_LEN" by simp
    with nth i show "length (tiles ! i) = TILE_LEN" by simp
  qed
qed

lemma predict_masks_ok:
  assumes "reshape_tiles images = Inr tiles" and "model tiles = Inr scores"
    and "\<forall>t\<in>set scores. [] \<notin> set t"
  shows "predict_masks model images w
           = (Inr (map binarise scores), log (EvInference (length tiles)) w)"
  using assms
  by (auto simp: predict_masks_def Let_def np_argmax_last_def np_expand_dims_last_def
      np_where_gt_half_def binarise_def)

lemma path_stem_free: "CHR ''/'' \<notin> set (path_stem p)"
proof -
  have "CHR ''/'' \<notin> set (path_name p)" by (rule path_name_free)
  then show ?thesis
    by (auto simp: path_stem_def Let_def split: option.splits dest: in_set_takeD)
qed

lemma write_mask_path:
  assumes "pp \<noteq> []" and "fs (resolve pp) = Some (Directory es)"
  shows "write_file (mask_path pp p) c fs
           = Some (fs(resolve pp \<mapsto> Directory (AList.update (path_stem p @ ''.png'') c es)))"
proof -
  let ?n = "path_stem p @ ''.png''"
  have "CHR ''/'' \<notin> set ?n" using path_stem_free [of p] by simp
  moreover have "?n \<noteq> []" "?n \<noteq> ''.''" by simp_all
  ultimately have "path_parts (pp @ ''/'' @ ?n) = path_parts pp @ [?n]"
    by (rule path_parts_join)
  with assms is_abs_join [OF assms(1), of ?n] show ?thesis
    by (simp add: write_file_def mask_path_def resolve_def)
qed

lemma save_masks_success:
  assumes "pp \<noteq> []"
  shows "files w (resolve pp) = Some (Directory es) \<Longrightarrow> \<forall>it\<in>set items. fst it < length preds
         \<Longrightarrow> fst (save_masks preds pp items w) = None"
proof (induction items arbitrary: w es)
  case Nil
  show ?case by simp
next
  case (Cons it items)
  obtain idx path where it: "it = (idx, path)" by (cases it)
  with Cons.prems have lt: "idx < length preds" by simp
  let ?c = "Image None (concat (preds ! idx))"
  let ?es = "AList.update (path_stem path @ ''.png'') ?c es"
  let ?w1 = "log (EvSaveMask (mask_path pp path) (preds ! idx))
               (w\<lparr>files := (files w)(resolve pp \<mapsto> Directory ?es)\<rparr>)"
  have s: "save_mask (preds ! idx) (mask_path pp path) w = (None, ?w1)"
    by (simp add: save_mask_def write_mask_path [where fs = "files w", OF assms Cons.prems(1)])
  have "files ?w1 (resolve pp) = Some (Directory ?es)" by simp
  from Cons.IH [OF this] Cons.prems(2) have "fst (save_masks preds pp items ?w1) = None"
    by simp
  with it lt s show ?case by simp
qed

lemma enumerate_fst_lt: "it \<in> set (List.enumerate 0 xs) \<Longrightarrow> fst it < length xs"
  by (auto simp: List.enumerate_eq_zip in_set_zip)

lemma enumerate_last:
  assumes "xs \<noteq> []"
  shows "(length xs - 1, last xs) \<in> set (List.enumerate 0 xs)"
proof -
  from assms have "length xs - 1 < length xs" by simp
  then have "List.enumerate 0 xs ! (length xs - 1) = (length xs - 1, xs ! (length xs - 1))"
    by (simp add: nth_enumerate_eq)
  moreover from assms have "xs ! (length xs - 1) = last xs" by (simp add: last_conv_nth)
  ultimately show ?thesis
    by (metis \<open>length xs - 1 < length xs\<close> length_enumerate nth_mem)
qed

lemma length_concat_uniform:
  "\<forall>x\<in>set xs. length x = k \<Longrightarrow> length (concat xs) = length xs * k"
  by (induction xs) simp_all

lemma mispaired:
  assumes r: "reshape_tiles (concat imgs) = Inr tiles"
    and more: "length imgs < length tiles"
  shows "\<exists>i<length imgs. tiles ! i \<noteq> imgs ! i"
proof (rule ccontr)
  assume "\<not> (\<exists>i<length imgs. tiles ! i \<noteq> imgs ! i)"
  then have same: "\<forall>i<length imgs. tiles ! i = imgs ! i" by blast
  from reshape_tiles_Inr(3) [OF r] more same
  have "\<forall>i<length imgs. length (imgs ! i) = TILE_LEN"
    by (metis less_trans)
  then have "\<forall>x\<in>set imgs. length x = TILE_LEN"
    by (auto simp: in_set_conv_nth)
  then have "length (concat imgs) = length imgs * TILE_LEN"
    by (rule length_concat_uniform)
  with reshape_tiles_Inr(1) [OF r] TILE_LEN_pos more show False by simp
qed

lemma open_images_Inr:
  assumes "open_images ps w = (Inr images, w1)"
  shows "w1 = log (EvOpenImages ps) w"
    and "\<exists>imgs. images = concat imgs \<and> length imgs = length ps
           \<and> (\<forall>i<length ps. \<exists>crs. read_file (ps ! i) (files w) = Some (Image crs (imgs ! i)))"
proof -
  let ?f = "\<lambda>p. case read_file p (files w) of Some (Image crs samples) \<Rightarrow> Some samples | _ \<Rightarrow> None"
  from assms show "w1 = log (EvOpenImages ps) w"
    by (auto simp: open_images_def Let_def split: option.splits)
  from assms obtain imgs where th: "those (map ?f ps) = Some imgs" and im: "images = concat imgs"
    by (auto simp: open_images_def Let_def split: option.splits)
  have "those xs = Some ys \<Longrightarrow> xs = map Some ys" for xs :: "int list option list" and ys
    by (induction xs arbitrary: ys) (auto split: option.splits)
  from this [OF th] have m: "map ?f ps = map Some imgs" .
  then have len: "length imgs = length ps" by (metis length_map)
  have "\<exists>crs. read_file (ps ! i) (files w) = Some (Image crs (imgs ! i))" if "i < length ps" for i
  proof -
    from m that len have "?f (ps ! i) = Some (imgs ! i)"
      by (metis nth_map)
    then show ?thesis by (auto split: option.splits content.splits)
  qed
  with im len show "\<exists>imgs. images = concat imgs \<and> length imgs = length ps
           \<and> (\<forall>i<length ps. \<exists>crs. read_file (ps ! i) (files w) = Some (Image crs (imgs ! i)))"
    by blast
qed


text \<open>
  Claim C10. Let \<open>open_images\<close> have returned an array. If its number of elements is no
  multiple of \<open>256 * 256 * 3\<close>, the reshape raises \<open>ValueError\<close> and so does
  \<open>process_batch\<close>, before any inference. Otherwise the reshape cuts the elements in
  order into tiles of that many; let the model return one score map per tile. With fewer
  tiles than paths \<open>process_batch\<close> raises (\<open>IndexError\<close> from \<open>preds[idx]\<close>, unless a save
  has failed before). When \<open>process_batch\<close> returns, there are at least as many tiles as
  paths and the mask saved for the \<open>i\<close>-th path is computed from the \<open>i\<close>-th tile of the
  array. With as many tiles as paths, and the output directory there, it does return.
  With more tiles than paths some path is paired with a tile that is not the data of its
  own image: the precondition on the number of elements is needed for the pairing.
\<close>

theorem reshape_needs_whole_tiles:
  fixes model :: "('a::linorder) model"
  assumes loaded: "open_images image_batch w = (Inr images, w1)"
  shows "(length images mod (IMAGE_SIZE * IMAGE_SIZE * 3) \<noteq> 0 \<longrightarrow>
            reshape_tiles images = Inl ValueError
            \<and> process_batch image_batch model prediction_path w = (Some ValueError, w1))
         \<and> (\<forall>tiles scores.
               reshape_tiles images = Inr tiles \<and> model tiles = Inr scores
               \<and> length scores = length tiles \<and> (\<forall>t\<in>set scores. [] \<notin> set t) \<longrightarrow>
               length images = length tiles * (IMAGE_SIZE * IMAGE_SIZE * 3)
               \<and> (\<forall>i<length tiles.
                     tiles ! i = take (IMAGE_SIZE * IMAGE_SIZE * 3)
                                   (drop (i * (IMAGE_SIZE * IMAGE_SIZE * 3)) images))
               \<and> (length tiles < length image_batch \<longrightarrow>
                     fst (process_batch image_batch model prediction_path w) = Some IndexError
                     \<or> fst (process_batch image_batch model prediction_path w) = Some OSError)
               \<and> (fst (process_batch image_batch model prediction_path w) = None \<longrightarrow>
                     length image_batch \<le> length tiles
                     \<and> saved (new_events w (snd (process_batch image_batch model prediction_path w)))
                         = map (\<lambda>(i, p). (mask_path prediction_path p, binarise (scores ! i)))
                             (List.enumerate 0 image_batch))
               \<and> (length tiles = length image_batch \<and> prediction_path \<noteq> []
                    \<and> (\<exists>es. files w (resolve prediction_path) = Some (Directory es)) \<longrightarrow>
                     fst (process_batch image_batch model prediction_path w) = None)
               \<and> (length image_batch < length tiles \<longrightarrow>
                     (\<exists>imgs. images = concat imgs \<and> length imgs = length image_batch
                        \<and> (\<forall>i<length image_batch. \<exists>crs.
                              read_file (image_batch ! i) (files w) = Some (Image crs (imgs ! i)))
                        \<and> (\<exists>i<length image_batch. tiles ! i \<noteq> imgs ! i))))"
proof (intro conjI allI impI)
  let ?pb = "process_batch image_batch model prediction_path w"
  note w1 = open_images_Inr(1) [OF loaded]
  {
    assume "length images mod (IMAGE_SIZE * IMAGE_SIZE * 3) \<noteq> 0"
    then show r: "reshape_tiles images = Inl ValueError"
      by (simp add: reshape_tiles_def Let_def)
    with loaded show "?pb = (Some ValueError, w1)"
      by (simp add: process_batch_def predict_masks_def)
  }
  fix tiles and scores :: "'a fl list list list"
  assume a: "reshape_tiles images = Inr tiles \<and> model tiles = Inr scores
               \<and> length scores = length tiles \<and> (\<forall>t\<in>set scores. [] \<notin> set t)"
  then have r: "reshape_tiles images = Inr tiles" and m: "model tiles = Inr scores"
    and ls: "length scores = length tiles" and ne: "\<forall>t\<in>set scores. [] \<notin> set t"
    by blast+
  let ?preds = "map binarise scores"
  let ?w2 = "log (EvInference (length tiles)) w1"
  let ?items = "List.enumerate 0 image_batch"
  have pm: "predict_masks model images w1 = (Inr ?preds, ?w2)"
    by (rule predict_masks_ok [where model = model, OF r m ne])
  with loaded have pb: "?pb = save_masks ?preds prediction_path ?items ?w2"
    by (simp add: process_batch_def)
  obtain res w3 where sm: "save_masks ?preds prediction_path ?items ?w2 = (res, w3)"
    by (cases "save_masks ?preds prediction_path ?items ?w2")
  from save_masks_events [OF sm] obtain k where k: "k \<le> length ?items"
    and tr: "trace w3 = trace ?w2 @ map (\<lambda>(idx, path). EvSaveMask (mask_path prediction_path path) (?preds ! idx))
               (take k ?items)"
    and lt: "\<forall>it\<in>set (take k ?items). fst it < length ?preds"
    and none: "res = None \<longrightarrow> k = length ?items"
    and some: "\<forall>e. res = Some e \<longrightarrow> k < length ?items
            \<and> (if fst (?items ! k) < length ?preds then e = OSError else e = IndexError)"
    by blast
  show "length images = length tiles * (IMAGE_SIZE * IMAGE_SIZE * 3)"
    using reshape_tiles_Inr(1) [OF r] by (simp add: TILE_LEN_def)
  show "tiles ! i = take (IMAGE_SIZE * IMAGE_SIZE * 3)
                      (drop (i * (IMAGE_SIZE * IMAGE_SIZE * 3)) images)"
    if "i < length tiles" for i
    using reshape_tiles_Inr(2) [OF r] that by (simp add: TILE_LEN_def)
  have fit: "length image_batch \<le> length tiles" if "res = None"
  proof (cases "image_batch = []")
    case True
    then show ?thesis by simp
  next
    case False
    from that none have "take k ?items = ?items" by simp
    with lt enumerate_last [OF False] have "length image_batch - 1 < length ?preds"
      by fastforce
    with False ls show ?thesis by (cases image_batch) simp_all
  qed
  {
    assume short: "length tiles < length image_batch"
    with fit have "res \<noteq> None" by auto
    then obtain e where e: "res = Some e" by blast
    with some have "e = OSError \<or> e = IndexError" by (auto split: if_splits)
    with e pb sm show "fst ?pb = Some IndexError \<or> fst ?pb = Some OSError" by auto
  }
  {
    assume "fst ?pb = None"
    with pb sm have res: "res = None" by simp
    from fit [OF res] show "length image_batch \<le> length tiles" .
    from res none have k': "take k ?items = ?items" by simp
    from tr w1 have "new_events w w3 = [EvOpenImages image_batch, EvInference (length tiles)]
          @ map (\<lambda>(idx, path). EvSaveMask (mask_path prediction_path path) (?preds ! idx)) ?items"
      by (simp add: new_events_def k')
    then have "saved (new_events w w3)
          = map (\<lambda>(idx, path). (mask_path prediction_path path, ?preds ! idx)) ?items"
      by (simp add: saved_map_save)
    also have "\<dots> = map (\<lambda>(i, p). (mask_path prediction_path p, binarise (scores ! i))) ?items"
    proof (rule map_cong [OF refl])
      fix it assume "it \<in> set ?items"
      with lt k' have "fst it < length scores" by auto
      then show "(case it of (idx, path) \<Rightarrow> (mask_path prediction_path path, ?preds ! idx))
          = (case it of (i, p) \<Rightarrow> (mask_path prediction_path p, binarise (scores ! i)))"
        by (cases it) simp
    qed
    finally show "saved (new_events w (snd ?pb))
        = map (\<lambda>(i, p). (mask_path prediction_path p, binarise (scores ! i))) ?items"
      using pb sm by simp
  }
  {
    assume b: "length tiles = length image_batch \<and> prediction_path \<noteq> []
                    \<and> (\<exists>es. files w (resolve prediction_path) = Some (Directory es))"
    then obtain es where es: "files ?w2 (resolve prediction_path) = Some (Directory es)"
      using w1 by auto
    from b ls have "\<forall>it\<in>set ?items. fst it < length ?preds"
      by (auto dest: enumerate_fst_lt)
    with b es have "fst (save_masks ?preds prediction_path ?items ?w2) = None"
      by (intro save_masks_success) auto
    with pb show "fst ?pb = None" by simp
  }
  {
    assume more: "length image_batch < length tiles"
    from open_images_Inr(2) [OF loaded] obtain imgs where
      im: "images = concat imgs" "length imgs = length image_batch"
      "\<forall>i<length image_batch. \<exists>crs. read_file (image_batch ! i) (files w) = Some (Image crs (imgs ! i))"
      by blast
    from mispaired [of imgs tiles] r im more
    have "\<exists>i<length image_batch. tiles ! i \<noteq> imgs ! i" by simp
    with im show "\<exists>imgs. images = concat imgs \<and> length imgs = length image_batch
                        \<and> (\<forall>i<length image_batch. \<exists>crs.
                              read_file (image_batch ! i) (files w) = Some (Image crs (imgs ! i)))
                        \<and> (\<exists>i<length image_batch. tiles ! i \<noteq> imgs ! i)"
      by blast
  }
qed


lemma odd_open_wide:
  "open_images [''in/w1.png'', ''in/w2.png''] odd_world
     = (Inr (replicate 393216 7 @ replicate 393216 9),
        log (EvOpenImages [''in/w1.png'', ''in/w2.png'']) odd_world)"
  by (simp add: open_images_def Let_def read_file_def odd_world_def path_defs)

lemma odd_open_halves:
  "open_images [''in/h1.png'', ''in/h2.png''] odd_world
     = (Inr (replicate 98304 7 @ replicate 98304 9),
        log (EvOpenImages [''in/h1.png'', ''in/h2.png'']) odd_world)"
  by (simp add: open_images_def Let_def read_file_def odd_world_def path_defs)

lemma odd_open_half:
  "open_images [''in/h1.png''] odd_world
     = (Inr (replicate 98304 7), log (EvOpenImages [''in/h1.png'']) odd_world)"
  by (simp add: open_images_def Let_def read_file_def odd_world_def path_defs)

lemma upt_small: "[0..<4] = [0, 1, 2, 3]" "[0..<2] = [0, 1]"
  by code_simp+

lemma odd_reshape_wide:
  "reshape_tiles (replicate 393216 7 @ replicate 393216 (9::int))
     = Inr [replicate 196608 7, replicate 196608 7, replicate 196608 9, replicate 196608 9]"
  by (simp add: reshape_tiles_def IMAGE_SIZE_def Let_def upt_small)

lemma odd_reshape_halves:
  "reshape_tiles (replicate 98304 7 @ replicate 98304 (9::int))
     = Inr [replicate 98304 7 @ replicate 98304 9]"
  by (simp add: reshape_tiles_def IMAGE_SIZE_def Let_def)

lemma odd_scores_wide:
  "first_sample_model [replicate 196608 7, replicate 196608 7, replicate 196608 9, replicate 196608 9]
     = Inr [[[Num 7, Num 8]], [[Num 7, Num 8]], [[Num 9, Num 8]], [[Num 9, Num 8]]]"
  by (simp add: first_sample_model_def)

lemma odd_scores_halves:
  "first_sample_model [replicate 98304 7 @ replicate 98304 9] = Inr [[[Num 7, Num 8]]]"
  by (simp add: first_sample_model_def)

lemma binarise_examples:
  "binarise [[Num 7, Num (8::int)]] = [[1]]" "binarise [[Num 9, Num (8::int)]] = [[0]]"
  by (simp_all add: binarise_def np_argmax_def where_gt_half_def)

lemma odd_process_wide:
  "fst (process_batch [''in/w1.png'', ''in/w2.png''] first_sample_model ''out'' odd_world) = None"
  apply (simp add: process_batch_def odd_open_wide
      predict_masks_ok [where model = first_sample_model, OF odd_reshape_wide odd_scores_wide]
      binarise_examples List.enumerate_eq_zip upt_small)
  apply (simp add: save_mask_def write_file_def odd_world_def path_defs)
  done

lemma odd_process_halves:
  "fst (process_batch [''in/h1.png'', ''in/h2.png''] first_sample_model ''out'' odd_world)
     = Some IndexError"
  apply (simp add: process_batch_def odd_open_halves
      predict_masks_ok [where model = first_sample_model, OF odd_reshape_halves odd_scores_halves]
      binarise_examples List.enumerate_eq_zip upt_small)
  apply (simp add: save_mask_def write_file_def odd_world_def path_defs)
  done

theorem reshape_needs_whole_tiles_witness:
  "open_images [''in/w1.png'', ''in/w2.png''] odd_world
     = (Inr (replicate 393216 7 @ replicate 393216 9),
        log (EvOpenImages [''in/w1.png'', ''in/w2.png'']) odd_world)
   \<and> reshape_tiles (replicate 393216 7 @ replicate 393216 (9::int))
       = Inr [replicate 196608 7, replicate 196608 7, replicate 196608 9, replicate 196608 9]
   \<and> fst (process_batch [''in/w1.png'', ''in/w2.png''] first_sample_model ''out'' odd_world) = None
   \<and> saved (new_events odd_world
        (snd (process_batch [''in/w1.png'', ''in/w2.png''] first_sample_model ''out'' odd_world)))
       = [(''out/w1.png'', [[1]]), (''out/w2.png'', [[1]])]
   \<and> binarise [[Num 9, Num (8::int)]] = [[0]]
   \<and> process_batch [''in/h1.png''] first_sample_model ''out'' odd_world
       = (Some ValueError, log (EvOpenImages [''in/h1.png'']) odd_world)
   \<and> fst (process_batch [''in/h1.png'', ''in/h2.png''] first_sample_model ''out'' odd_world)
       = Some IndexError"
proof -
  let ?wide = "process_batch [''in/w1.png'', ''in/w2.png''] first_sample_model ''out'' odd_world"
  note W = reshape_needs_whole_tiles [OF odd_open_wide, where model = first_sample_model
      and prediction_path = "''out''"]
  have "reshape_tiles (replicate 393216 7 @ replicate 393216 (9::int))
          = Inr [replicate 196608 7, replicate 196608 7, replicate 196608 9, replicate 196608 9]
        \<and> first_sample_model [replicate 196608 7, replicate 196608 7, replicate 196608 9, replicate 196608 9]
          = Inr [[[Num 7, Num 8]], [[Num 7, Num 8]], [[Num 9, Num 8]], [[Num 9, Num 8]]]
        \<and> length [[[Num 7, Num (8::int)]], [[Num 7, Num 8]], [[Num 9, Num 8]], [[Num 9, Num 8]]]
          = length [replicate 196608 7, replicate 196608 7, replicate 196608 9, replicate 196608 (9::int)]
        \<and> (\<forall>t\<in>set [[[Num 7, Num (8::int)]], [[Num 7, Num 8]], [[Num 9, Num 8]], [[Num 9, Num 8]]].
              [] \<notin> set t)"
    by (simp add: odd_reshape_wide odd_scores_wide)
  with W odd_process_wide
  have "saved (new_events odd_world (snd ?wide))
      = map (\<lambda>(i, p). (mask_path ''out'' p,
               binarise ([[[Num 7, Num (8::int)]], [[Num 7, Num 8]], [[Num 9, Num 8]], [[Num 9, Num 8]]] ! i)))
          (List.enumerate 0 [''in/w1.png'', ''in/w2.png''])"
    by blast
  then have sv: "saved (new_events odd_world (snd ?wide))
       = [(''out/w1.png'', [[1]]), (''out/w2.png'', [[1]])]"
    by (simp add: List.enumerate_eq_zip upt_small binarise_examples path_defs)
  note H = reshape_needs_whole_tiles [OF odd_open_half, where model = first_sample_model
      and prediction_path = "''out''"]
  have "length (replicate 98304 (7::int)) mod (IMAGE_SIZE * IMAGE_SIZE * 3) \<noteq> 0"
    by (simp add: IMAGE_SIZE_def)
  with H have ve: "process_batch [''in/h1.png''] first_sample_model ''out'' odd_world
       = (Some ValueError, log (EvOpenImages [''in/h1.png'']) odd_world)"
    by blast
  from odd_open_wide odd_reshape_wide odd_process_wide sv binarise_examples(2) ve
    odd_process_halves
  show ?thesis by simp
qed


subsection \<open>Paths that end in slashes\<close>

lemma split_on_snoc: "split_on c (xs @ [c]) = split_on c xs @ [[]]"
  by (induction xs) (auto split: list.splits)

lemma path_parts_snoc_slash: "path_parts (xs @ ''/'') = path_parts xs"
  by (simp add: path_parts_def split_on_snoc)

lemma path_parts_rstrip: "path_parts (rstrip CHR ''/'' xs) = path_parts xs"
proof (induction xs rule: rev_induct)
  case Nil
  show ?case by (simp add: rstrip_def)
next
  case (snoc x xs)
  show ?case
  proof (cases "x = CHR ''/''")
    case True
    then have "rstrip CHR ''/'' (xs @ [x]) = rstrip CHR ''/'' xs" by (simp add: rstrip_def)
    with snoc True show ?thesis using path_parts_snoc_slash [of xs] by simp
  next
    case False
    then show ?thesis by (simp add: rstrip_def)
  qed
qed

lemma is_abs_snoc: "xs \<noteq> [] \<Longrightarrow> is_abs (xs @ ys) = is_abs xs"
  by (cases xs) (simp_all add: is_abs_def)

lemma is_abs_rstrip:
  "xs \<noteq> replicate (length xs) CHR ''/'' \<Longrightarrow> is_abs (rstrip CHR ''/'' xs) = is_abs xs"
proof (induction xs rule: rev_induct)
  case Nil
  then show ?case by simp
next
  case (snoc x xs)
  show ?case
  proof (cases "x = CHR ''/''")
    case True
    then have r: "rstrip CHR ''/'' (xs @ [x]) = rstrip CHR ''/'' xs" by (simp add: rstrip_def)
    have n: "xs \<noteq> replicate (length xs) CHR ''/''"
    proof
      assume a: "xs = replicate (length xs) CHR ''/''"
      from arg_cong [where f = "\<lambda>y. y @ [x]", OF a] True
      have "xs @ [x] = replicate (length xs) CHR ''/'' @ [CHR ''/'']" by simp
      then have "xs @ [x] = replicate (length (xs @ [x])) CHR ''/''"
        by (simp add: replicate_append_same)
      with snoc.prems show False by simp
    qed
    then have "xs \<noteq> []" by auto
    with snoc.IH [OF n] r show ?thesis by (simp add: is_abs_snoc)
  next
    case False
    then show ?thesis by (simp add: rstrip_def)
  qed
qed

lemma resolve_glob_dirname: "d \<noteq> [] \<Longrightarrow> resolve (glob_dirname d) = resolve d"
proof -
  assume d: "d \<noteq> []"
  show ?thesis
  proof (cases "d @ ''/'' = replicate (Suc (length d)) CHR ''/''")
    case True
    then have "glob_dirname d = d @ ''/''" by (simp add: glob_dirname_def)
    with d show ?thesis by (simp add: resolve_def path_parts_snoc_slash is_abs_snoc)
  next
    case False
    then have g: "glob_dirname d = rstrip CHR ''/'' (d @ ''/'')" by (simp add: glob_dirname_def)
    from False have "d @ ''/'' \<noteq> replicate (length (d @ ''/'')) CHR ''/''" by simp
    then have "is_abs (rstrip CHR ''/'' (d @ ''/'')) = is_abs (d @ ''/'')" by (rule is_abs_rstrip)
    with d g show ?thesis
      by (simp add: resolve_def path_parts_rstrip path_parts_snoc_slash is_abs_snoc)
  qed
qed

lemma files_cleanup_swept: "d \<noteq> [] \<Longrightarrow> files (cleanup d w) = swept d (files w)"
  by (simp add: files_cleanup swept_def resolve_glob_dirname split: option.splits node.splits)

subsection \<open>What \<open>os.makedirs\<close> does\<close>

lemma makedirs_Some:
  "makedirs pp w = (Some e, w')
   \<Longrightarrow> e = OSError \<and> w' = log (EvMakedirs pp) w
       \<and> (pp = [] \<or> list_ex (is_file (files w)) (ancestors (resolve pp)))"
  by (auto simp: makedirs_def Let_def split: if_splits)

lemma makedirs_None:
  "makedirs pp w = (None, w')
   \<Longrightarrow> pp \<noteq> [] \<and> \<not> list_ex (is_file (files w)) (ancestors (resolve pp))
       \<and> w' = (log (EvMakedirs pp) w)\<lparr>files := fold mkdir_missing (ancestors (resolve pp)) (files w)\<rparr>"
  by (auto simp: makedirs_def Let_def split: if_splits)

lemma is_dir_fold_mkdir:
  assumes "\<not> list_ex (is_file fs) ks"
  shows "list_all (is_dir (fold mkdir_missing ks fs)) ks"
proof -
  have "is_dir (fold mkdir_missing ks fs) k" if "k \<in> set ks" for k
  proof (cases "fs k")
    case None
    with that show ?thesis by (simp add: is_dir_def files_fold_mkdir)
  next
    case (Some nd)
    from assms that have "\<not> is_file fs k" by (auto simp: list_ex_iff)
    then have "fs k \<noteq> Some RegularFile" by (cases k) (auto simp: is_file_def)
    with Some show ?thesis by (cases nd) (simp_all add: is_dir_def files_fold_mkdir)
  qed
  then show ?thesis by (simp add: list_all_iff)
qed

lemma is_file_fold_mkdir: "is_file (fold mkdir_missing ks fs) k = is_file fs k"
  by (cases k) (auto simp: is_file_def files_fold_mkdir split: option.splits node.splits)

lemma fold_mkdir_twice: "fold mkdir_missing ks (fold mkdir_missing ks fs) = fold mkdir_missing ks fs"
  by (rule ext) (simp add: files_fold_mkdir)

lemma read_file_fold_mkdir:
  "read_file q fs \<noteq> None \<Longrightarrow> read_file q (fold mkdir_missing ks fs) \<noteq> None"
  by (auto simp: read_file_def files_fold_mkdir split: if_splits option.splits node.splits)

subsection \<open>Directories stay directories\<close>

lemma dirs_kept_refl [simp]: "dirs_kept w w"
  by (simp add: dirs_kept_def)

lemma dirs_kept_trans: "dirs_kept w w' \<Longrightarrow> dirs_kept w' w'' \<Longrightarrow> dirs_kept w w''"
  by (simp add: dirs_kept_def)

lemma dirs_kept_open_images: "open_images ps w = (r, w') \<Longrightarrow> dirs_kept w w'"
  by (auto simp: open_images_def Let_def dirs_kept_def split: option.splits)

lemma dirs_kept_predict_masks: "predict_masks m images w = (r, w') \<Longrightarrow> dirs_kept w w'"
  by (auto simp: predict_masks_def Let_def dirs_kept_def split: sum.splits)

lemma dirs_kept_save_mask: "save_mask m p w = (r, w') \<Longrightarrow> dirs_kept w w'"
  by (auto simp: save_mask_def dirs_kept_def is_dir_def write_file_def
      split: option.splits if_splits node.splits)

lemma dirs_kept_save_masks: "save_masks preds pp items w = (r, w') \<Longrightarrow> dirs_kept w w'"
proof (induction items arbitrary: w)
  case Nil
  then show ?case by simp
next
  case (Cons it items)
  obtain idx path where it: "it = (idx, path)" by (cases it)
  show ?case
  proof (cases "idx < length preds")
    case False
    with Cons.prems it show ?thesis by simp
  next
    case True
    obtain r1 w1 where s: "save_mask (preds ! idx) (mask_path pp path) w = (r1, w1)"
      by (cases "save_mask (preds ! idx) (mask_path pp path) w")
    then have b1: "dirs_kept w w1" by (rule dirs_kept_save_mask)
    show ?thesis
    proof (cases r1)
      case None
      with Cons.prems it True s have "save_masks preds pp items w1 = (r, w')" by simp
      then have "dirs_kept w1 w'" by (rule Cons.IH)
      with b1 show ?thesis by (rule dirs_kept_trans)
    next
      case (Some e)
      with Cons.prems it True s have "w' = w1" by simp
      with b1 show ?thesis by simp
    qed
  qed
qed

lemma dirs_kept_process_batch: "process_batch b m pp w = (r, w') \<Longrightarrow> dirs_kept w w'"
  by (auto simp: process_batch_def split: prod.splits sum.splits
      dest!: dirs_kept_open_images dirs_kept_predict_masks dirs_kept_save_masks
      intro: dirs_kept_trans)

lemma dirs_kept_step_task: "step_task m pp t w = (t', w') \<Longrightarrow> dirs_kept w w'"
  by (induction m pp t w rule: step_task.induct)
     (auto split: prod.splits sum.splits option.splits if_splits
      dest!: dirs_kept_open_images dirs_kept_predict_masks dirs_kept_save_mask
      intro: dirs_kept_trans)

lemma dirs_kept_step_at: "step_at m pp i (ts, w) = (ts', w') \<Longrightarrow> dirs_kept w w'"
  by (auto simp: step_at_def split: if_splits prod.splits dest: dirs_kept_step_task)

lemma dirs_kept_finish_task: "finish_task m pp t w = (t', w') \<Longrightarrow> dirs_kept w w'"
  by (cases t)
     (auto split: prod.splits option.splits
      dest!: dirs_kept_process_batch dirs_kept_save_masks)

lemma dirs_kept_finish_all: "finish_all m pp ts w = (ts', w') \<Longrightarrow> dirs_kept w w'"
proof (induction ts arbitrary: w ts' w')
  case Nil
  then show ?case by simp
next
  case (Cons t ts)
  obtain t1 w1 where f: "finish_task m pp t w = (t1, w1)" by (cases "finish_task m pp t w")
  obtain ts2 w2 where g: "finish_all m pp ts w1 = (ts2, w2)" by (cases "finish_all m pp ts w1")
  with Cons.prems f have "w' = w2" by simp
  with Cons.IH [OF g] dirs_kept_finish_task [OF f] show ?case
    by (auto intro: dirs_kept_trans)
qed

lemma dirs_kept_dispatch: "dispatch m pp sched batches w = (futures, w') \<Longrightarrow> dirs_kept w w'"
proof (rule dispatch_rel [where R = dirs_kept and m = m and pp = pp])
  show "dirs_kept w1 w3" if "dirs_kept w1 w2" "dirs_kept w2 w3" for w1 w2 w3
    using that by (rule dirs_kept_trans)
  show "dirs_kept w w" for w by simp
  show "dirs_kept w w'" if "step_at m pp i (ts, w) = (ts', w')" for i ts w ts' w'
    using that by (rule dirs_kept_step_at)
  show "dirs_kept w w'" if "finish_all m pp ts w = (ts', w')" for ts w ts' w'
    using that by (rule dirs_kept_finish_all)
  show "dirs_kept w (log (EvSubmit b) w)" for b w
    by (simp add: dirs_kept_def)
qed

lemma pool_event_before: "list_all is_pool_event evs \<Longrightarrow> list_all before_georeference evs"
proof (induction evs)
  case Nil
  show ?case by simp
next
  case (Cons e evs)
  then show ?case by (cases e) simp_all
qed

lemma georeference_and_cleanup_cases:
  assumes "pp \<noteq> []"
  shows "georeference_and_cleanup georef pp w4 =
     (case georef pp pp (files w4) of
        (Some e, fs5) \<Rightarrow>
          (Some e, \<lparr>files = fs5, trace = trace w4 @ [EvGeoreference pp pp]\<rparr>)
      | (None, fs5) \<Rightarrow>
          (None, \<lparr>files = swept pp fs5,
                  trace = trace w4 @ [EvGeoreference pp pp, EvRemoveFiles (pp @ ''/*.xml''),
                                      EvRemoveFiles (pp @ ''/*.png'')]\<rparr>))"
proof -
  obtain r fs5 where g: "georef pp pp (files w4) = (r, fs5)" by (cases "georef pp pp (files w4)")
  show ?thesis
  proof (cases r)
    case (Some e)
    with g show ?thesis by (simp add: georeference_and_cleanup_def Let_def log_def)
  next
    case None
    let ?w5 = "(log (EvGeoreference pp pp) w4)\<lparr>files := fs5\<rparr>"
    have "cleanup pp ?w5 = \<lparr>files = swept pp fs5,
        trace = trace w4 @ [EvGeoreference pp pp, EvRemoveFiles (pp @ ''/*.xml''),
                            EvRemoveFiles (pp @ ''/*.png'')]\<rparr>"
      by (rule world.equality) (simp_all add: files_cleanup_swept [OF assms])
    with g None show ?thesis by (simp add: georeference_and_cleanup_def Let_def)
  qed
qed


subsection \<open>Order of the stages\<close>

text \<open>
  Claim C6, as amended. For an input and an output path without wildcards and without
  \<open>..\<close>, every run of \<open>predict\<close> goes one of five ways. If the model does not load, if \<open>os.makedirs\<close> raises,
  or if the number of batches cannot be computed, \<open>predict\<close> raises that error at once:
  the georeferencer is not called and nothing is removed. Otherwise there is one future
  per batch, every future is done when the \<open>with\<close> block is left, and nothing has been
  georeferenced or removed up to then; the georeferencer is then applied once, to
  \<open>prediction_path\<close> and the file system the batches have left. If it raises, \<open>predict\<close>
  raises its error, on the file system it has left, and nothing is removed. If it
  returns, the two removals follow, in the order \<open>*.xml\<close>, \<open>*.png\<close>: \<open>predict\<close> returns
  without error, on the file system of the georeferencer minus the files of
  \<open>prediction_path\<close> that match one of the two patterns.
\<close>

theorem georeference_once_after_batches:
  assumes "plain_path ip" and "plain_path pp"
  shows
    "(case load_model cp of
        Inl e \<Rightarrow>
          predict load_model georef sched cp ip pp w = (Some e, log (EvLoadModel cp) w)
      | Inr model \<Rightarrow>
          (case makedirs pp (log (EvLoadModel cp) w) of
             (Some e, w2) \<Rightarrow>
               predict load_model georef sched cp ip pp w
                 = (Some e, \<lparr>files = files w, trace = trace w @ [EvLoadModel cp, EvMakedirs pp]\<rparr>)
           | (None, w2) \<Rightarrow>
               (case ceil_div_batch (length (glob (ip @ ''/*.png'') (files w2))) of
                  Inl e \<Rightarrow>
                    predict load_model georef sched cp ip pp w
                      = (Some e, log (EvGlob (ip @ ''/*.png'')) w2)
                | Inr n \<Rightarrow>
                    (case dispatch model pp sched
                            (make_batches n (glob (ip @ ''/*.png'') (files w2)))
                            (log (EvGlob (ip @ ''/*.png'')) w2) of
                       (futures, w4) \<Rightarrow>
                         length futures = n
                         \<and> list_all finished futures
                         \<and> (\<exists>evs. trace w4 = trace w @ evs \<and> list_all before_georeference evs)
                         \<and> (case georef pp pp (files w4) of
                              (Some e, fs5) \<Rightarrow>
                                predict load_model georef sched cp ip pp w
                                  = (Some e, \<lparr>files = fs5,
                                              trace = trace w4 @ [EvGeoreference pp pp]\<rparr>)
                            | (None, fs5) \<Rightarrow>
                                predict load_model georef sched cp ip pp w
                                  = (None, \<lparr>files = swept pp fs5,
                                            trace = trace w4 @ [EvGeoreference pp pp,
                                                                EvRemoveFiles (pp @ ''/*.xml''),
                                                                EvRemoveFiles (pp @ ''/*.png'')]\<rparr>))))))"
proof (cases "load_model cp")
  case (Inl e)
  then show ?thesis by (simp add: predict_def)
next
  case (Inr model)
  let ?w1 = "log (EvLoadModel cp) w"
  let ?pat = "ip @ ''/*.png''"
  obtain r2 and w2 :: world where m: "makedirs pp ?w1 = (r2, w2)" by (cases "makedirs pp ?w1")
  show ?thesis
  proof (cases r2)
    case (Some e)
    from makedirs_Some [OF m [unfolded Some]]
    have "w2 = \<lparr>files = files w, trace = trace w @ [EvLoadModel cp, EvMakedirs pp]\<rparr>"
      by (simp add: log_def)
    with Inr m Some show ?thesis by (simp add: predict_def)
  next
    case None
    note m = m [unfolded None]
    from makedirs_None [OF m] have pp: "pp \<noteq> []" by simp
    have t2: "trace w2 = trace w @ [EvLoadModel cp, EvMakedirs pp]"
      using trace_makedirs [OF m] by simp
    show ?thesis
    proof (cases "ceil_div_batch (length (glob ?pat (files w2)))")
      case (Inl e)
      with Inr m show ?thesis by (simp add: predict_def Let_def)
    next
      case c: (Inr n)
      let ?batches = "make_batches n (glob ?pat (files w2))"
      obtain futures and w4 :: world
        where d: "dispatch model pp sched ?batches (log (EvGlob ?pat) w2) = (futures, w4)"
        by (cases "dispatch model pp sched ?batches (log (EvGlob ?pat) w2)")
      from dispatch_trace [OF d] obtain evs where
        f: "length futures = length ?batches" "list_all finished futures"
        and e: "trace w4 = trace (log (EvGlob ?pat) w2) @ evs" "list_all is_pool_event evs"
        by blast
      from f(1) have len: "length futures = n" by (simp add: make_batches_def)
      from e t2 have "trace w4 = trace w @ ([EvLoadModel cp, EvMakedirs pp, EvGlob ?pat] @ evs)
          \<and> list_all before_georeference ([EvLoadModel cp, EvMakedirs pp, EvGlob ?pat] @ evs)"
        by (simp add: pool_event_before)
      then have ev: "\<exists>evs. trace w4 = trace w @ evs \<and> list_all before_georeference evs"
        by blast
      have p: "predict load_model georef sched cp ip pp w
          = georeference_and_cleanup georef pp w4"
        by (rule predict_unfold [where load_model = load_model and cp = cp, OF Inr m c d])
      have g: "(case georef pp pp (files w4) of
                  (Some e, fs5) \<Rightarrow>
                    predict load_model georef sched cp ip pp w
                      = (Some e, \<lparr>files = fs5, trace = trace w4 @ [EvGeoreference pp pp]\<rparr>)
                | (None, fs5) \<Rightarrow>
                    predict load_model georef sched cp ip pp w
                      = (None, \<lparr>files = swept pp fs5,
                                trace = trace w4 @ [EvGeoreference pp pp,
                                                    EvRemoveFiles (pp @ ''/*.xml''),
                                                    EvRemoveFiles (pp @ ''/*.png'')]\<rparr>))"
        unfolding p georeference_and_cleanup_cases [OF pp]
        by (simp split: prod.splits option.splits)
      from Inr m c d len f(2) ev g show ?thesis by simp
    qed
  qed
qed

lemma plain_in: "plain_path ''in''"
  by (simp add: plain_path_def has_magic_def path_parts_def)

lemma plain_out: "plain_path ''out''"
  by (simp add: plain_path_def has_magic_def path_parts_def)

lemma example_swept:
  "swept ''out'' ((files fresh_world)((False, [''out'']) \<mapsto>
       Directory [(''a.png'', Image (Some ''EPSG:3857'') [1, 0])]))
     = (files fresh_world)((False, [''out'']) \<mapsto> Directory [])"
  by (simp add: swept_def path_defs)

theorem georeference_once_after_batches_witness:
  "plain_path ''in'' \<and> plain_path ''out''
   \<and> predict example_load georeference [0, 0] ''ckpt'' ''in'' ''out'' fresh_world
       = (None,
          \<lparr>files = (files fresh_world)((False, [''out'']) \<mapsto> Directory []),
           trace = [EvLoadModel ''ckpt'', EvMakedirs ''out'', EvGlob ''in/*.png'',
                    EvSubmit [''in/a.png''], EvOpenImages [''in/a.png''], EvInference 1,
                    EvSaveMask ''out/a.png'' [[1], [0]],
                    EvGeoreference ''out'' ''out'',
                    EvRemoveFiles ''out/*.xml'', EvRemoveFiles ''out/*.png'']\<rparr>)"
proof -
  have l: "example_load ''ckpt'' = Inr example_model" by (simp add: example_load_def)
  have c: "ceil_div_batch (length (glob ''in/*.png'' (files example_w2))) = Inr 1"
    by (simp add: example_glob ceil_div_batch_one)
  have d: "dispatch example_model ''out'' [0, 0] (make_batches (Suc 0) (glob ''in/*.png'' (files example_w2)))
        (log (EvGlob ''in/*.png'') example_w2) = ([Done], example_w4)"
    by (simp add: example_glob example_batches example_dispatch)
  have t4: "trace example_w4 = [EvLoadModel ''ckpt'', EvMakedirs ''out'', EvGlob ''in/*.png'',
               EvSubmit [''in/a.png''], EvOpenImages [''in/a.png''], EvInference 1,
               EvSaveMask ''out/a.png'' [[1], [0]]]"
    by (simp add: example_w4_def)
  from georeference_once_after_batches [where load_model = example_load and cp = "''ckpt''"
      and georef = georeference and sched = "[0, 0]" and w = fresh_world,
      OF plain_in plain_out]
  have "predict example_load georeference [0, 0] ''ckpt'' ''in'' ''out'' fresh_world
       = (None,
          \<lparr>files = (files fresh_world)((False, [''out'']) \<mapsto> Directory []),
           trace = trace example_w4 @ [EvGeoreference ''out'' ''out'',
                    EvRemoveFiles ''out/*.xml'', EvRemoveFiles ''out/*.png'']\<rparr>)"
    by (simp add: l example_makedirs c d example_georeference example_swept)
  with plain_in plain_out show ?thesis by (simp add: t4)
qed

text \<open>
  Claim C6 as the spec states it fails: not every run calls the georeferencer. Where
  \<open>out\<close> is a regular file, \<open>os.makedirs\<close> raises \<open>FileExistsError\<close> at line 70;
  \<open>predict\<close> raises it, and the run has neither georeferenced nor removed anything.
\<close>

theorem georeference_not_reached_counterexample:
  "files blocked_world (resolve ''out'') = Some RegularFile
   \<and> predict example_load georeference [] ''ckpt'' ''in'' ''out'' blocked_world
       = (Some OSError,
          \<lparr>files = files blocked_world, trace = [EvLoadModel ''ckpt'', EvMakedirs ''out'']\<rparr>)
   \<and> filter (\<lambda>e. \<not> before_georeference e)
        (trace (snd (predict example_load georeference [] ''ckpt'' ''in'' ''out'' blocked_world)))
       = []"
proof -
  have r: "files blocked_world (resolve ''out'') = Some RegularFile"
    by (simp add: blocked_world_def path_defs)
  have m: "makedirs ''out'' (log (EvLoadModel ''ckpt'') blocked_world)
      = (Some OSError, log (EvMakedirs ''out'') (log (EvLoadModel ''ckpt'') blocked_world))"
    by (simp add: makedirs_def Let_def blocked_world_def path_defs ancestors_def is_file_def)
  have p: "predict example_load georeference [] ''ckpt'' ''in'' ''out'' blocked_world
       = (Some OSError,
          \<lparr>files = files blocked_world, trace = [EvLoadModel ''ckpt'', EvMakedirs ''out'']\<rparr>)"
    by (simp add: predict_def example_load_def m) (simp add: log_def blocked_world_def)
  from r p show ?thesis by simp
qed


subsection \<open>An input directory without tiles\<close>









subsection \<open>The output directory\<close>

lemma is_file_fold_mkdir_fun: "is_file (fold mkdir_missing ks fs) = is_file fs"
  by (rule ext) (rule is_file_fold_mkdir)

lemma makedirs_again:
  assumes "makedirs pp (log ev w) = (None, w2)"
  shows "makedirs pp (log ev (w\<lparr>files := files w2\<rparr>)) = (None, w2)"
proof -
  from makedirs_None [OF assms]
  have "pp \<noteq> []" "\<not> list_ex (is_file (files w)) (ancestors (resolve pp))"
    and w2: "w2 = (log (EvMakedirs pp) (log ev w))
                    \<lparr>files := fold mkdir_missing (ancestors (resolve pp)) (files w)\<rparr>"
    by simp_all
  then show ?thesis
    by (simp add: makedirs_def Let_def is_file_fold_mkdir_fun fold_mkdir_twice log_def)
qed

text \<open>
  Claim C8, as amended. For an input and an output path without wildcards and without
  \<open>..\<close>: \<open>predict\<close> makes the output directory at line 70, after the model has loaded. If
  the model does not load, \<open>predict\<close> raises and the file system is untouched. If
  \<open>prediction_path\<close> is empty, or it or one of its parents is a regular file, \<open>os.makedirs\<close>
  raises and so does \<open>predict\<close>, the file system untouched. Otherwise \<open>os.makedirs\<close>
  returns: \<open>prediction_path\<close> and all its parents are directories then, those that were
  missing are empty and everything else is as it was, so a directory that was there
  keeps its files; a run started where these directories are already there is the same
  run, with the same result. The directories are still there when every future is done,
  no file that could be read at the start has been lost, and it is that file system the
  georeferencer is applied to: the outcome of \<open>predict\<close> is the georeferencer's, and the
  file system at the end is the georeferencer's, after the cleanup if it returned.
\<close>

theorem prediction_path_made_after_load:
  assumes "plain_path ip" and "plain_path pp"
  shows
    "(case load_model cp of
        Inl e \<Rightarrow>
          predict load_model georef sched cp ip pp w = (Some e, log (EvLoadModel cp) w)
      | Inr model \<Rightarrow>
          (case makedirs pp (log (EvLoadModel cp) w) of
             (Some e, w2) \<Rightarrow>
               (pp = [] \<or> list_ex (is_file (files w)) (ancestors (resolve pp)))
               \<and> predict load_model georef sched cp ip pp w
                   = (Some OSError,
                      \<lparr>files = files w, trace = trace w @ [EvLoadModel cp, EvMakedirs pp]\<rparr>)
           | (None, w2) \<Rightarrow>
               pp \<noteq> []
               \<and> \<not> list_ex (is_file (files w)) (ancestors (resolve pp))
               \<and> list_all (is_dir (files w2)) (ancestors (resolve pp))
               \<and> (\<forall>k. files w2 k
                        = (if files w k = None \<and> k \<in> set (ancestors (resolve pp))
                           then Some (Directory []) else files w k))
               \<and> predict load_model georef sched cp ip pp (w\<lparr>files := files w2\<rparr>)
                   = predict load_model georef sched cp ip pp w
               \<and> (case ceil_div_batch (length (glob (ip @ ''/*.png'') (files w2))) of
                    Inl e \<Rightarrow>
                      predict load_model georef sched cp ip pp w
                        = (Some e, log (EvGlob (ip @ ''/*.png'')) w2)
                  | Inr n \<Rightarrow>
                      (case dispatch model pp sched
                              (make_batches n (glob (ip @ ''/*.png'') (files w2)))
                              (log (EvGlob (ip @ ''/*.png'')) w2) of
                         (futures, w4) \<Rightarrow>
                           list_all (is_dir (files w4)) (ancestors (resolve pp))
                           \<and> (\<forall>q. read_file q (files w) \<noteq> None
                                    \<longrightarrow> read_file q (files w4) \<noteq> None)
                           \<and> fst (predict load_model georef sched cp ip pp w)
                               = fst (georef pp pp (files w4))
                           \<and> files (snd (predict load_model georef sched cp ip pp w))
                               = (if fst (georef pp pp (files w4)) = None
                                  then swept pp (snd (georef pp pp (files w4)))
                                  else snd (georef pp pp (files w4)))))))"
proof (cases "load_model cp")
  case (Inl e)
  then show ?thesis by (simp add: predict_def)
next
  case (Inr model)
  let ?w1 = "log (EvLoadModel cp) w"
  let ?pat = "ip @ ''/*.png''"
  let ?ks = "ancestors (resolve pp)"
  obtain r2 and w2 :: world where m: "makedirs pp ?w1 = (r2, w2)" by (cases "makedirs pp ?w1")
  show ?thesis
  proof (cases r2)
    case (Some e)
    from makedirs_Some [OF m [unfolded Some]]
    have "e = OSError" "pp = [] \<or> list_ex (is_file (files w)) ?ks"
      "w2 = \<lparr>files = files w, trace = trace w @ [EvLoadModel cp, EvMakedirs pp]\<rparr>"
      by (simp_all add: log_def)
    with Inr m Some show ?thesis by (simp add: predict_def)
  next
    case None
    note m = m [unfolded None]
    from makedirs_None [OF m]
    have pp: "pp \<noteq> []" and nf: "\<not> list_ex (is_file (files w)) ?ks"
      and f2: "files w2 = fold mkdir_missing ?ks (files w)"
      by simp_all
    have dirs: "list_all (is_dir (files w2)) ?ks"
      unfolding f2 using nf by (rule is_dir_fold_mkdir)
    have pt: "\<forall>k. files w2 k = (if files w k = None \<and> k \<in> set ?ks
                                 then Some (Directory []) else files w k)"
      by (auto simp: f2 files_fold_mkdir)
    have same: "predict load_model georef sched cp ip pp (w\<lparr>files := files w2\<rparr>)
                  = predict load_model georef sched cp ip pp w"
      using makedirs_again [OF m] Inr m by (simp add: predict_def)
    show ?thesis
    proof (cases "ceil_div_batch (length (glob ?pat (files w2)))")
      case (Inl e)
      with Inr m pp nf dirs pt same show ?thesis by (simp add: predict_def Let_def)
    next
      case c: (Inr n)
      let ?batches = "make_batches n (glob ?pat (files w2))"
      obtain futures and w4 :: world
        where d: "dispatch model pp sched ?batches (log (EvGlob ?pat) w2) = (futures, w4)"
        by (cases "dispatch model pp sched ?batches (log (EvGlob ?pat) w2)")
      from dirs_kept_dispatch [OF d] dirs
      have dirs4: "list_all (is_dir (files w4)) ?ks"
        by (auto simp: dirs_kept_def list_all_iff)
      have rd: "\<forall>q. read_file q (files w) \<noteq> None \<longrightarrow> read_file q (files w4) \<noteq> None"
      proof (intro allI impI)
        fix q
        assume "read_file q (files w) \<noteq> None"
        then have "read_file q (files w2) \<noteq> None"
          unfolding f2 by (rule read_file_fold_mkdir)
        with kept_dispatch [OF d] show "read_file q (files w4) \<noteq> None"
          by (simp add: kept_def)
      qed
      have p: "predict load_model georef sched cp ip pp w
          = georeference_and_cleanup georef pp w4"
        by (rule predict_unfold [where load_model = load_model and cp = cp, OF Inr m c d])
      obtain r fs5 where geo: "georef pp pp (files w4) = (r, fs5)"
        by (cases "georef pp pp (files w4)")
      have o: "fst (predict load_model georef sched cp ip pp w) = fst (georef pp pp (files w4))"
        by (simp add: p georeference_and_cleanup_result)
      have f: "files (snd (predict load_model georef sched cp ip pp w))
                 = (if fst (georef pp pp (files w4)) = None
                    then swept pp (snd (georef pp pp (files w4)))
                    else snd (georef pp pp (files w4)))"
        unfolding p georeference_and_cleanup_cases [OF pp]
        by (cases r) (simp_all add: geo)
      from Inr m c d pp nf dirs pt same dirs4 rd o f show ?thesis by simp
    qed
  qed
qed

lemma plain_nested: "plain_path ''out/masks''"
  by (simp add: plain_path_def has_magic_def path_parts_def)

lemma nested_makedirs:
  "makedirs ''out/masks'' (log (EvLoadModel ''ckpt'') fresh_world) = (None, nested_w2)"
  by (simp add: makedirs_def Let_def log_def fresh_world_def nested_w2_def path_defs
      ancestors_def is_file_def mkdir_missing_def)

lemma nested_glob: "glob ''in/*.png'' (files nested_w2) = [''in/a.png'']"
  by (simp add: glob_def nested_w2_def fresh_world_def listdir_def path_defs)

lemma nested_dispatch:
  "dispatch example_model ''out/masks'' [0, 0] [[''in/a.png'']]
     (log (EvGlob ''in/*.png'') nested_w2) = ([Done], nested_w4)"
  by (simp add: dispatch_def submit_all_def wait_def step_pool_def submit_next_def step_at_def
      example_open example_masks
      nested_w2_def fresh_world_def List.enumerate_eq_zip save_mask_def write_file_def
      path_defs log_def nested_w4_def)

lemma nested_georeference:
  "georeference ''out/masks'' ''out/masks'' (files nested_w4)
     = (None, (files fresh_world)
          ((False, [''out'']) \<mapsto> Directory [],
           (False, [''out'', ''masks'']) \<mapsto>
             Directory [(''a.png'', Image (Some ''EPSG:3857'') [1, 0])]))"
  by (simp add: georeference_def nested_w4_def write_file_def path_defs)

lemma nested_swept:
  "swept ''out/masks'' ((files fresh_world)
          ((False, [''out'']) \<mapsto> Directory [],
           (False, [''out'', ''masks'']) \<mapsto>
             Directory [(''a.png'', Image (Some ''EPSG:3857'') [1, 0])]))
     = (files fresh_world)
          ((False, [''out'']) \<mapsto> Directory [],
           (False, [''out'', ''masks'']) \<mapsto> Directory [])"
  by (simp add: swept_def path_defs)

theorem prediction_path_made_after_load_witness:
  "plain_path ''in'' \<and> plain_path ''out/masks''
   \<and> files fresh_world (resolve ''out'') = None
   \<and> files fresh_world (resolve ''out/masks'') = None
   \<and> makedirs ''out/masks'' (log (EvLoadModel ''ckpt'') fresh_world) = (None, nested_w2)
   \<and> files nested_w2 (resolve ''out'') = Some (Directory [])
   \<and> files nested_w2 (resolve ''out/masks'') = Some (Directory [])
   \<and> predict example_load georeference [0, 0] ''ckpt'' ''in'' ''out/masks''
        (fresh_world\<lparr>files := files nested_w2\<rparr>)
       = predict example_load georeference [0, 0] ''ckpt'' ''in'' ''out/masks'' fresh_world
   \<and> fst (predict example_load georeference [0, 0] ''ckpt'' ''in'' ''out/masks'' fresh_world)
       = None
   \<and> files (snd (predict example_load georeference [0, 0] ''ckpt'' ''in'' ''out/masks'' fresh_world))
       = (files fresh_world)
           ((False, [''out'']) \<mapsto> Directory [],
            (False, [''out'', ''masks'']) \<mapsto> Directory [])"
proof -
  let ?P = "predict example_load georeference [0, 0] ''ckpt'' ''in'' ''out/masks''"
  have l: "example_load ''ckpt'' = Inr example_model" by (simp add: example_load_def)
  have c: "ceil_div_batch (length (glob ''in/*.png'' (files nested_w2))) = Inr (Suc 0)"
    by (simp add: nested_glob ceil_div_batch_one)
  have d: "dispatch example_model ''out/masks'' [0, 0]
        (make_batches (Suc 0) (glob ''in/*.png'' (files nested_w2)))
        (log (EvGlob ''in/*.png'') nested_w2) = ([Done], nested_w4)"
    by (simp add: nested_glob example_batches nested_dispatch)
  have a: "files fresh_world (resolve ''out'') = None"
    "files fresh_world (resolve ''out/masks'') = None"
    by (simp_all add: fresh_world_def path_defs)
  have b: "files nested_w2 (resolve ''out'') = Some (Directory [])"
    "files nested_w2 (resolve ''out/masks'') = Some (Directory [])"
    by (simp_all add: nested_w2_def path_defs)
  from prediction_path_made_after_load [where load_model = example_load and cp = "''ckpt''"
      and georef = georeference and sched = "[0, 0]" and w = fresh_world,
      OF plain_in plain_nested]
  have "?P (fresh_world\<lparr>files := files nested_w2\<rparr>) = ?P fresh_world
        \<and> fst (?P fresh_world) = None
        \<and> files (snd (?P fresh_world))
            = (files fresh_world)
                ((False, [''out'']) \<mapsto> Directory [],
                 (False, [''out'', ''masks'']) \<mapsto> Directory [])"
    by (simp add: l nested_makedirs c d nested_georeference nested_swept)
  with plain_in plain_nested a b nested_makedirs show ?thesis by simp
qed

text \<open>
  Claim C8 as the spec states it fails: not every call makes the directory. When the
  checkpoint does not load, \<open>predict\<close> raises at line 66, before \<open>os.makedirs\<close> at line 70,
  and \<open>out\<close>, which was not there, is not there afterwards either.
\<close>

theorem prediction_path_not_made_counterexample:
  "files fresh_world (resolve ''out'') = None
   \<and> predict failing_load georeference [] ''ckpt'' ''in'' ''out'' fresh_world
       = (Some (ExternalError ''No file or directory found''),
          \<lparr>files = files fresh_world, trace = [EvLoadModel ''ckpt'']\<rparr>)
   \<and> files (snd (predict failing_load georeference [] ''ckpt'' ''in'' ''out'' fresh_world))
        (resolve ''out'') = None"
proof -
  have a: "files fresh_world (resolve ''out'') = None"
    by (simp add: fresh_world_def path_defs)
  have p: "predict failing_load georeference [] ''ckpt'' ''in'' ''out'' fresh_world
       = (Some (ExternalError ''No file or directory found''),
          \<lparr>files = files fresh_world, trace = [EvLoadModel ''ckpt'']\<rparr>)"
    by (simp add: predict_def failing_load_def log_def fresh_world_def)
  from a p show ?thesis by simp
qed

end
